theory Spec2Isabelle
  imports Complex_Main "HOL-Library.AList"
begin

section \<open>JavaScript values\<close>

text \<open>
  The error classifier receives \<^verbatim>\<open>error: unknown\<close> and probes it with \<^verbatim>\<open>typeof\<close>,
  \<^verbatim>\<open>in\<close>, \<^verbatim>\<open>===\<close>, \<^verbatim>\<open>??\<close> and \<^verbatim>\<open>?.\<close>. Its inputs are modelled as JSON-like
  values, as \<^verbatim>\<open>JSON.parse\<close> builds them. Numbers are the integers of magnitude below
  \<open>2^53\<close> (HTTP statuses, counters, millisecond clocks); an object is the list of its
  own enumerable properties in \<^verbatim>\<open>Object.entries\<close> order, with pairwise distinct keys
  (\<open>inUniverse\<close> below). Function-valued properties and getters are outside this
  universe, so every method a value has is the one its prototype gives it, unless an own
  property of the same name hides it.
\<close>

datatype jsval =
    JUndefined
  | JNull
  | JBool bool
  | JNum int
  | JStr string
  | JArr "jsval list"
  | JObj "(string \<times> jsval) list"

datatype js_type = T_undefined | T_object | T_boolean | T_number | T_string

fun typeof :: "jsval \<Rightarrow> js_type" where
  "typeof JUndefined = T_undefined"
| "typeof JNull = T_object"
| "typeof (JBool b) = T_boolean"
| "typeof (JNum n) = T_number"
| "typeof (JStr s) = T_string"
| "typeof (JArr xs) = T_object"
| "typeof (JObj kvs) = T_object"

text \<open>ToBoolean: the falsy values are undefined, null, false, 0 and the empty string.\<close>

fun truthy :: "jsval \<Rightarrow> bool" where
  "truthy JUndefined = False"
| "truthy JNull = False"
| "truthy (JBool b) = b"
| "truthy (JNum n) = (n \<noteq> 0)"
| "truthy (JStr s) = (s \<noteq> [])"
| "truthy (JArr xs) = True"
| "truthy (JObj kvs) = True"

fun nullish :: "jsval \<Rightarrow> bool" where
  "nullish JUndefined = True"
| "nullish JNull = True"
| "nullish v = False"

text \<open>
  \<^verbatim>\<open>v.k\<close> for a value that is neither null nor undefined. The property names read by
  the classifier (status, message, code, response, data, ...) are own properties of an
  object or absent; arrays and primitives have none of them.
\<close>

fun getp :: "jsval \<Rightarrow> string \<Rightarrow> jsval" where
  "getp (JObj kvs) k = (case map_of kvs k of None \<Rightarrow> JUndefined | Some v \<Rightarrow> v)"
| "getp v k = JUndefined"

text \<open>\<^verbatim>\<open>k in v\<close>, used only where \<open>v\<close> is known to be a non-null object.\<close>

fun has_prop :: "string \<Rightarrow> jsval \<Rightarrow> bool" where
  "has_prop k (JObj kvs) = (k \<in> fst ` set kvs)"
| "has_prop k v = False"

text \<open>Optional chaining \<^verbatim>\<open>v?.k\<close> and nullish coalescing \<^verbatim>\<open>a ?? b\<close>.\<close>

definition oprop :: "jsval \<Rightarrow> string \<Rightarrow> jsval" where
  "oprop v k = (if nullish v then JUndefined else getp v k)"

definition nc :: "jsval \<Rightarrow> jsval \<Rightarrow> jsval" where
  "nc a b = (if nullish a then b else a)"

subsection \<open>Conversions\<close>

definition digit_char :: "nat \<Rightarrow> char" where
  "digit_char d = char_of (48 + d)"

fun string_of_nat :: "nat \<Rightarrow> string" where
  "string_of_nat n =
     (if n < 10 then [digit_char n] else string_of_nat (n div 10) @ [digit_char (n mod 10)])"

declare string_of_nat.simps [simp del]

definition string_of_int :: "int \<Rightarrow> string" where
  "string_of_int i = (if i < 0 then CHR ''-'' # string_of_nat (nat (- i)) else string_of_nat (nat i))"

fun join_comma :: "string list \<Rightarrow> string" where
  "join_comma [] = []"
| "join_comma [s] = s"
| "join_comma (s # t # rest) = s @ '','' @ join_comma (t # rest)"

text \<open>
  \<^verbatim>\<open>String(v)\<close>, with \<open>None\<close> when the conversion throws a TypeError. An array prints
  as its elements joined by commas, where null and undefined elements print as the empty
  string. An object is converted by its \<^verbatim>\<open>toString\<close> method: a plain object prints as
  \<^verbatim>\<open>[object Object]\<close>, but an own property named \<^verbatim>\<open>toString\<close> hides the method of
  the prototype, and since it is not a function (neither is what \<^verbatim>\<open>valueOf\<close> gives a
  primitive) the conversion throws. A number of the universe prints in decimal digits
  (from \<open>10^21\<close> on JavaScript switches to exponent notation; such numbers are outside
  the universe).
\<close>

fun js_String :: "jsval \<Rightarrow> string option" where
  "js_String JUndefined = Some ''undefined''"
| "js_String JNull = Some ''null''"
| "js_String (JBool b) = Some (if b then ''true'' else ''false'')"
| "js_String (JNum n) = Some (string_of_int n)"
| "js_String (JStr s) = Some s"
| "js_String (JArr xs) =
     map_option join_comma (those (map (\<lambda>v. if nullish v then Some [] else js_String v) xs))"
| "js_String (JObj kvs) =
     (if ''toString'' \<in> fst ` set kvs then None else Some ''[object Object]'')"

text \<open>A value that \<^verbatim>\<open>String\<close> converts without throwing.\<close>

definition stringifiable :: "jsval \<Rightarrow> bool" where
  "stringifiable v \<longleftrightarrow> js_String v \<noteq> None"

text \<open>
  ToNumber, with \<open>None\<close> for NaN. The conversion of strings (and of arrays and objects,
  which convert through their string) is not modelled: every status the classifier compares
  is declared \<^verbatim>\<open>number\<close>, and the theorems below that depend on the outcome of a
  comparison assume a number.
\<close>

fun toNumber :: "jsval \<Rightarrow> int option" where
  "toNumber JUndefined = None"
| "toNumber JNull = Some 0"
| "toNumber (JBool b) = Some (if b then 1 else 0)"
| "toNumber (JNum n) = Some n"
| "toNumber v = None"

text \<open>
  \<^verbatim>\<open>v >= k\<close> and \<^verbatim>\<open>v < k\<close> for a number \<open>k\<close>, with \<open>None\<close> when the comparison
  throws: it first converts \<open>v\<close> to a primitive, which for an object or an array throws
  exactly when \<^verbatim>\<open>String(v)\<close> does.
\<close>

definition js_ge :: "jsval \<Rightarrow> int \<Rightarrow> bool option" where
  "js_ge v k =
     (if js_String v = None then None
      else Some (case toNumber v of None \<Rightarrow> False | Some n \<Rightarrow> n \<ge> k))"

definition js_lt :: "jsval \<Rightarrow> int \<Rightarrow> bool option" where
  "js_lt v k =
     (if js_String v = None then None
      else Some (case toNumber v of None \<Rightarrow> False | Some n \<Rightarrow> n < k))"

text \<open>\<^verbatim>\<open>String.prototype.toUpperCase\<close> on ASCII letters (HTTP method names).\<close>

definition toUpperCase :: "string \<Rightarrow> string" where
  "toUpperCase s =
     map (\<lambda>c. if 97 \<le> (of_char c :: nat) \<and> (of_char c :: nat) \<le> 122
              then char_of ((of_char c :: nat) - 32) else c) s"

text \<open>
  \<^verbatim>\<open>Object.entries\<close> of a value whose \<^verbatim>\<open>typeof\<close> is object and that is truthy: the
  own properties of an object, the indexed elements of an array.
\<close>

fun Object_entries :: "jsval \<Rightarrow> (string \<times> jsval) list" where
  "Object_entries (JObj kvs) = kvs"
| "Object_entries (JArr xs) = zip (map string_of_nat [0..<length xs]) xs"
| "Object_entries v = []"

text \<open>
  The values of the universe: every number is below \<open>2^53\<close> in magnitude and the keys of
  every object are pairwise distinct.
\<close>

fun inUniverse :: "jsval \<Rightarrow> bool" where
  "inUniverse (JNum n) = (\<bar>n\<bar> < 2 ^ 53)"
| "inUniverse (JArr xs) = list_all inUniverse xs"
| "inUniverse (JObj kvs) = (distinct (map fst kvs) \<and> list_all (\<lambda>kv. inUniverse (snd kv)) kvs)"
| "inUniverse v = True"

section \<open>Double-precision numbers\<close>

text \<open>
  The delays of the retry policy are JavaScript numbers, IEEE 754 doubles, and the backoff
  formula multiplies and adds them. A finite double is a real number \<open>m * 2^e\<close> with
  \<open>\<bar>m\<bar> < 2^53\<close>, \<open>e \<ge> -1074\<close> and magnitude below \<open>2^1024\<close>; besides these there
  are the two infinities and NaN. The sign of zero is not modelled.
\<close>

datatype double = Fin real | PosInf | NegInf | NaN

definition representable :: "real \<Rightarrow> bool" where
  "representable x \<longleftrightarrow>
     (\<exists>m e. x = of_int m * 2 powi e \<and> \<bar>m\<bar> < 2 ^ 53 \<and> - 1074 \<le> e) \<and> \<bar>x\<bar> < 2 ^ 1024"

text \<open>
  Rounding to nearest, ties to even. The doubles around \<open>x\<close> are the multiples of the
  unit in the last place of its binade (of \<open>2^-1074\<close> for a subnormal \<open>x\<close>); \<open>x\<close> is
  rounded to the nearest multiple, to the even one of two equally near, and the result
  overflows to an infinity from \<open>2^1024\<close> on.
\<close>

definition roundHalfEven :: "real \<Rightarrow> int" where
  "roundHalfEven q =
     (let f = \<lfloor>q\<rfloor> in
      if q - of_int f < 1 / 2 then f
      else if 1 / 2 < q - of_int f then f + 1
      else if even f then f else f + 1)"

definition binade :: "real \<Rightarrow> int" where
  "binade x = max (- 1022) \<lfloor>log 2 \<bar>x\<bar>\<rfloor>"

definition ulp :: "real \<Rightarrow> real" where
  "ulp x = 2 powi (binade x - 52)"

definition roundValue :: "real \<Rightarrow> real" where
  "roundValue x = of_int (roundHalfEven (x / ulp x)) * ulp x"

definition roundDouble :: "real \<Rightarrow> double" where
  "roundDouble x =
     (if x = 0 then Fin 0
      else if 2 ^ 1024 \<le> roundValue x then PosInf
      else if roundValue x \<le> - (2 ^ 1024) then NegInf
      else Fin (roundValue x))"

text \<open>
  Multiplication, addition and \<^verbatim>\<open>Math.min\<close>: on finite doubles the exact result,
  rounded; on the special values as IEEE 754 has them.
\<close>

fun dmul :: "double \<Rightarrow> double \<Rightarrow> double" where
  "dmul (Fin a) (Fin b) = roundDouble (a * b)"
| "dmul NaN y = NaN"
| "dmul x NaN = NaN"
| "dmul (Fin a) PosInf = (if a = 0 then NaN else if 0 < a then PosInf else NegInf)"
| "dmul (Fin a) NegInf = (if a = 0 then NaN else if 0 < a then NegInf else PosInf)"
| "dmul PosInf (Fin b) = (if b = 0 then NaN else if 0 < b then PosInf else NegInf)"
| "dmul NegInf (Fin b) = (if b = 0 then NaN else if 0 < b then NegInf else PosInf)"
| "dmul PosInf PosInf = PosInf"
| "dmul PosInf NegInf = NegInf"
| "dmul NegInf PosInf = NegInf"
| "dmul NegInf NegInf = PosInf"

fun dadd :: "double \<Rightarrow> double \<Rightarrow> double" where
  "dadd (Fin a) (Fin b) = roundDouble (a + b)"
| "dadd NaN y = NaN"
| "dadd x NaN = NaN"
| "dadd PosInf NegInf = NaN"
| "dadd NegInf PosInf = NaN"
| "dadd PosInf y = PosInf"
| "dadd x PosInf = PosInf"
| "dadd NegInf y = NegInf"
| "dadd x NegInf = NegInf"

fun dmin :: "double \<Rightarrow> double \<Rightarrow> double" where
  "dmin (Fin a) (Fin b) = Fin (min a b)"
| "dmin NaN y = NaN"
| "dmin x NaN = NaN"
| "dmin NegInf y = NegInf"
| "dmin x NegInf = NegInf"
| "dmin PosInf y = y"
| "dmin x PosInf = x"

text \<open>\<^verbatim>\<open>2 ** n\<close> for a counter \<open>n\<close>.\<close>

definition dpow2 :: "nat \<Rightarrow> double" where
  "dpow2 n = roundDouble (2 ^ n)"

text \<open>\<^verbatim>\<open>Number.MIN_VALUE\<close>, the least positive double (about \<^verbatim>\<open>5e-324\<close>).\<close>

definition MIN_VALUE :: real where
  "MIN_VALUE = 2 powi (- 1074)"

section \<open>The host environment\<close>

text \<open>
  The code reads the clock (\<^verbatim>\<open>Date.now()\<close>, \<^verbatim>\<open>new Date().toISOString()\<close>), draws
  random numbers (\<^verbatim>\<open>Math.random()\<close>) and waits (\<^verbatim>\<open>setTimeout\<close>). These act on an
  abstract world \<open>'w\<close>, which also carries whatever the wrapped operations touch.
\<close>

record 'w host =
  date_now :: "'w \<Rightarrow> int"
  toISOString_now :: "'w \<Rightarrow> string"
  math_random :: "'w \<Rightarrow> double \<times> 'w"
  sleep :: "double \<Rightarrow> 'w \<Rightarrow> 'w"

section \<open>Error codes and the enhanced error\<close>

datatype ErrorCode =
    BAD_REQUEST | UNAUTHORIZED | FORBIDDEN | NOT_FOUND | METHOD_NOT_ALLOWED | CONFLICT
  | UNPROCESSABLE_ENTITY | TOO_MANY_REQUESTS
  | INTERNAL_SERVER_ERROR | BAD_GATEWAY | SERVICE_UNAVAILABLE | GATEWAY_TIMEOUT
  | NETWORK_ERROR | TIMEOUT | CONNECTION_REFUSED
  | CIRCUIT_OPEN

text \<open>The string each member of \<^verbatim>\<open>ERROR_CODES\<close> stands for.\<close>

fun ERROR_CODES :: "ErrorCode \<Rightarrow> string" where
  "ERROR_CODES BAD_REQUEST = ''BAD_REQUEST''"
| "ERROR_CODES UNAUTHORIZED = ''UNAUTHORIZED''"
| "ERROR_CODES FORBIDDEN = ''FORBIDDEN''"
| "ERROR_CODES NOT_FOUND = ''NOT_FOUND''"
| "ERROR_CODES METHOD_NOT_ALLOWED = ''METHOD_NOT_ALLOWED''"
| "ERROR_CODES CONFLICT = ''CONFLICT''"
| "ERROR_CODES UNPROCESSABLE_ENTITY = ''UNPROCESSABLE_ENTITY''"
| "ERROR_CODES TOO_MANY_REQUESTS = ''TOO_MANY_REQUESTS''"
| "ERROR_CODES INTERNAL_SERVER_ERROR = ''INTERNAL_SERVER_ERROR''"
| "ERROR_CODES BAD_GATEWAY = ''BAD_GATEWAY''"
| "ERROR_CODES SERVICE_UNAVAILABLE = ''SERVICE_UNAVAILABLE''"
| "ERROR_CODES GATEWAY_TIMEOUT = ''GATEWAY_TIMEOUT''"
| "ERROR_CODES NETWORK_ERROR = ''NETWORK_ERROR''"
| "ERROR_CODES TIMEOUT = ''TIMEOUT''"
| "ERROR_CODES CONNECTION_REFUSED = ''CONNECTION_REFUSED''"
| "ERROR_CODES CIRCUIT_OPEN = ''CIRCUIT_OPEN''"

text \<open>The optional call-site metadata \<^verbatim>\<open>ErrorContext\<close>.\<close>

record ErrorContext =
  endpoint :: "string option"
  "method" :: "string option"

text \<open>The \<^verbatim>\<open>context\<close> object of an enhanced error.\<close>

record EnhancedContext =
  ctx_endpoint :: jsval
  ctx_method :: "string option"
  timestamp :: string
  requestId :: "string option"
  retryCount :: "nat option"

text \<open>
  \<^verbatim>\<open>EnhancedApiError\<close>. The status is whatever value the raw failure carried (or the
  number 500); \<^verbatim>\<open>errors\<close> is the validation map, a list of fields in insertion order.
\<close>

record EnhancedApiError =
  message :: string
  status :: jsval
  code :: ErrorCode
  retryable :: bool
  suggestion :: string
  errors :: "(string \<times> string list) list option"
  "context" :: EnhancedContext

text \<open>What a call can throw: an enhanced error object, or the runtime's TypeError.\<close>

datatype thrown = Enhanced EnhancedApiError | TypeError

section \<open>ErrorHandler: classification\<close>

definition isAxiosError :: "jsval \<Rightarrow> bool" where
  "isAxiosError error \<longleftrightarrow>
     typeof error = T_object \<and> error \<noteq> JNull \<and> has_prop ''isAxiosError'' error \<and>
     getp error ''isAxiosError'' = JBool True"

definition isApiErrorLike :: "jsval \<Rightarrow> bool" where
  "isApiErrorLike error =
     (if \<not> truthy error \<or> typeof error \<noteq> T_object then False
      else typeof (getp error ''status'') = T_number \<and> typeof (getp error ''message'') = T_string)"

definition hasResponse :: "jsval \<Rightarrow> bool" where
  "hasResponse error =
     (if isAxiosError error then typeof (getp error ''response'') \<noteq> T_undefined
      else if typeof error = T_object \<and> error \<noteq> JNull \<and> has_prop ''response'' error
        then getp error ''response'' \<noteq> JUndefined
      else False)"

text \<open>\<^verbatim>\<open>extractPlainMessage\<close>: \<open>None\<close> is undefined.\<close>

definition extractPlainMessage :: "jsval \<Rightarrow> string option" where
  "extractPlainMessage error =
     (if isApiErrorLike error then
        (case getp error ''message'' of JStr m \<Rightarrow> Some m | _ \<Rightarrow> None)
      else if typeof error = T_object \<and> error \<noteq> JNull \<and> has_prop ''message'' error then
        (case getp error ''message'' of JStr m \<Rightarrow> Some m | _ \<Rightarrow> None)
      else None)"

text \<open>
  The \<^verbatim>\<open>code\<close> both \<^verbatim>\<open>getErrorCode\<close> and \<^verbatim>\<open>isRetryable\<close> read off the raw
  failure (the same expression in both).
\<close>

definition rawErrorCode :: "jsval \<Rightarrow> jsval" where
  "rawErrorCode error =
     nc (if isApiErrorLike error then getp error ''code'' else JUndefined)
        (if typeof error = T_object \<and> error \<noteq> JNull \<and> has_prop ''code'' error
         then getp error ''code'' else JUndefined)"

text \<open>
  \<^verbatim>\<open>getErrorCode\<close>. It returns a code, or throws the TypeError of the comparison in the
  default branch of its \<^verbatim>\<open>switch\<close>.
\<close>

definition getErrorCode :: "jsval \<Rightarrow> jsval \<Rightarrow> thrown + ErrorCode" where
  "getErrorCode st error =
     (let errorCode = rawErrorCode error in
      if errorCode = JStr ''ECONNABORTED'' then Inr TIMEOUT
      else if errorCode = JStr ''ECONNREFUSED'' then Inr CONNECTION_REFUSED
      else if errorCode = JStr (ERROR_CODES CIRCUIT_OPEN) then Inr CIRCUIT_OPEN
      else if \<not> hasResponse error \<and> extractPlainMessage error = Some ''Network Error''
        then Inr NETWORK_ERROR
      else if st = JNum 400 then Inr BAD_REQUEST
      else if st = JNum 401 then Inr UNAUTHORIZED
      else if st = JNum 403 then Inr FORBIDDEN
      else if st = JNum 404 then Inr NOT_FOUND
      else if st = JNum 405 then Inr METHOD_NOT_ALLOWED
      else if st = JNum 409 then Inr CONFLICT
      else if st = JNum 422 then Inr UNPROCESSABLE_ENTITY
      else if st = JNum 429 then Inr TOO_MANY_REQUESTS
      else if st = JNum 500 then Inr INTERNAL_SERVER_ERROR
      else if st = JNum 502 then Inr BAD_GATEWAY
      else if st = JNum 503 then Inr SERVICE_UNAVAILABLE
      else if st = JNum 504 then Inr GATEWAY_TIMEOUT
      else (case js_ge st 500 of
              None \<Rightarrow> Inl TypeError
            | Some b \<Rightarrow> Inr (if b then INTERNAL_SERVER_ERROR else BAD_REQUEST)))"

text \<open>The second half of \<^verbatim>\<open>getErrorMessage\<close>: the message or error of the response body.\<close>

definition responseBodyMessage :: "jsval \<Rightarrow> string" where
  "responseBodyMessage error =
     (let axiosError = (if isAxiosError error then error else JUndefined);
          data = oprop (oprop axiosError ''response'') ''data''
      in if truthy data \<and> typeof data = T_object then
           (case getp data ''message'' of
              JStr m \<Rightarrow> m
            | _ \<Rightarrow> (case getp data ''error'' of
                       JStr e \<Rightarrow> e
                     | _ \<Rightarrow> ''An unexpected error occurred''))
         else ''An unexpected error occurred'')"

definition getErrorMessage :: "jsval \<Rightarrow> string" where
  "getErrorMessage error =
     (case extractPlainMessage error of
        Some plainMessage \<Rightarrow>
          if plainMessage \<noteq> [] then plainMessage else responseBodyMessage error
      | None \<Rightarrow> responseBodyMessage error)"

text \<open>
  The two places a status is read from, as \<^verbatim>\<open>isRetryable\<close> writes them:
  \<^verbatim>\<open>isApiErrorLike(error) ? error.status : undefined\<close> and
  \<^verbatim>\<open>isAxiosError(error) ? error.response?.status : undefined\<close>.
\<close>

definition apiErrorStatus :: "jsval \<Rightarrow> jsval" where
  "apiErrorStatus error = (if isApiErrorLike error then getp error ''status'' else JUndefined)"

definition axiosResponseStatus :: "jsval \<Rightarrow> jsval" where
  "axiosResponseStatus error =
     (if isAxiosError error then oprop (getp error ''response'') ''status'' else JUndefined)"

text \<open>
  The test \<^verbatim>\<open>status && status >= 400 && status < 500\<close>, evaluated from the left; \<open>None\<close>
  when a comparison throws.
\<close>

definition isClientErrorStatus :: "jsval \<Rightarrow> bool option" where
  "isClientErrorStatus st =
     (if \<not> truthy st then Some False
      else (case js_ge st 400 of
              None \<Rightarrow> None
            | Some b \<Rightarrow> if b then js_lt st 500 else Some False))"

definition isRetryable :: "jsval \<Rightarrow> thrown + bool" where
  "isRetryable error =
     (let c = rawErrorCode error in
      if c = JStr (ERROR_CODES CIRCUIT_OPEN) then Inr False
      else
        let st = nc (apiErrorStatus error) (axiosResponseStatus error)
        in case isClientErrorStatus st of
             None \<Rightarrow> Inl TypeError
           | Some True \<Rightarrow> Inr (st = JNum 429 \<or> st = JNum 408)
           | Some False \<Rightarrow>
               if st = JUndefined then Inr True
               else (case js_ge st 500 of None \<Rightarrow> Inl TypeError | Some b \<Rightarrow> Inr b))"

definition getErrorSuggestion :: "ErrorCode \<Rightarrow> jsval \<Rightarrow> string" where
  "getErrorSuggestion c error =
     (case c of
        UNAUTHORIZED \<Rightarrow>
          ''Check your API key and ensure it is valid and has the necessary permissions''
      | FORBIDDEN \<Rightarrow>
          ''You do not have permission to access this resource. Check your workspace access''
      | NOT_FOUND \<Rightarrow>
          ''The requested resource was not found. Verify the ID and that it exists''
      | TOO_MANY_REQUESTS \<Rightarrow>
          ''Rate limit exceeded. Please wait before making additional requests''
      | UNPROCESSABLE_ENTITY \<Rightarrow>
          ''Validation failed. Check the request data format and required fields''
      | TIMEOUT \<Rightarrow>
          ''Request timed out. The server may be slow or unresponsive. Try again later''
      | NETWORK_ERROR \<Rightarrow>
          ''Network connection failed. Check your internet connection and server URL''
      | SERVICE_UNAVAILABLE \<Rightarrow>
          ''Service is temporarily unavailable. This is usually temporary, please try again later''
      | CIRCUIT_OPEN \<Rightarrow>
          (case (if isApiErrorLike error then getp error ''suggestion'' else JUndefined) of
             JStr t \<Rightarrow>
               if t \<noteq> [] then t
               else ''Service is experiencing issues. Please wait before retrying''
           | _ \<Rightarrow> ''Service is experiencing issues. Please wait before retrying'')
      | _ \<Rightarrow>
          ''An error occurred. If this persists, please check the API documentation or contact support'')"

text \<open>
  \<^verbatim>\<open>result[key] = v\<close> on the object \<^verbatim>\<open>result\<close>, which starts as \<^verbatim>\<open>{}\<close>. The key
  \<^verbatim>\<open>__proto__\<close> names the accessor of \<^verbatim>\<open>Object.prototype\<close>: assigning to it changes
  the prototype of \<^verbatim>\<open>result\<close> (the value is an array) and adds no property. Every other
  key becomes an own property, or replaces its value.
\<close>

definition assignField ::
  "string \<Rightarrow> string list \<Rightarrow> (string \<times> string list) list \<Rightarrow> (string \<times> string list) list" where
  "assignField key v result = (if key = ''__proto__'' then result else AList.update key v result)"

text \<open>
  The loop of \<^verbatim>\<open>extractValidationErrors\<close> over \<^verbatim>\<open>Object.entries\<close>: an array value is
  stringified element by element, null and undefined are skipped, any other value is
  stringified and wrapped. \<open>None\<close> when a \<^verbatim>\<open>String(v)\<close> throws.
\<close>

fun collectErrors ::
  "(string \<times> jsval) list \<Rightarrow> (string \<times> string list) list
     \<Rightarrow> (string \<times> string list) list option"
where
  "collectErrors [] result = Some result"
| "collectErrors ((key, v) # rest) result =
     (case v of
        JArr vs \<Rightarrow>
          (case those (map js_String vs) of
             None \<Rightarrow> None
           | Some ss \<Rightarrow> collectErrors rest (assignField key ss result))
      | JNull \<Rightarrow> collectErrors rest result
      | JUndefined \<Rightarrow> collectErrors rest result
      | _ \<Rightarrow>
          (case js_String v of
             None \<Rightarrow> None
           | Some s \<Rightarrow> collectErrors rest (assignField key [s] result)))"

text \<open>\<^verbatim>\<open>Object.keys(result).length > 0 ? result : undefined\<close>, after the loop.\<close>

definition nonEmptyResult ::
  "(string \<times> string list) list option \<Rightarrow> thrown + (string \<times> string list) list option" where
  "nonEmptyResult collected =
     (case collected of
        None \<Rightarrow> Inl TypeError
      | Some result \<Rightarrow> Inr (if length result > 0 then Some result else None))"

definition extractValidationErrors ::
  "jsval \<Rightarrow> jsval \<Rightarrow> thrown + (string \<times> string list) list option" where
  "extractValidationErrors error axiosError =
     (if isApiErrorLike error \<and> truthy (getp error ''errors'') \<and>
         typeof (getp error ''errors'') = T_object
      then nonEmptyResult (collectErrors (Object_entries (getp error ''errors'')) [])
      else
        let data = oprop (oprop axiosError ''response'') ''data'' in
        if truthy data \<and> typeof data = T_object \<and> has_prop ''errors'' data then
          (let es = getp data ''errors'' in
           if truthy es \<and> typeof es = T_object
           then nonEmptyResult (collectErrors (Object_entries es) [])
           else Inr None)
        else Inr None)"

text \<open>
  \<^verbatim>\<open>extractRequestId\<close>. No value of this universe is a function, so the
  \<^verbatim>\<open>headers.get\<close> branch (an \<^verbatim>\<open>AxiosHeaders\<close> instance) is never taken here and the
  header is read as a record entry.
\<close>

definition extractRequestId :: "jsval \<Rightarrow> string option" where
  "extractRequestId axiosError =
     (let headers = oprop (oprop axiosError ''config'') ''headers'' in
      if \<not> truthy headers then None
      else (case getp headers ''X-Request-ID'' of JStr s \<Rightarrow> Some s | _ \<Rightarrow> None))"

text \<open>
  \<^verbatim>\<open>(context?.method ?? axiosError?.config?.method)?.toUpperCase()\<close>, where
  \<^verbatim>\<open>m?.toUpperCase()\<close> is undefined for a nullish \<open>m\<close>, the upper-cased string for a
  string, and a TypeError for any other value, which has no \<^verbatim>\<open>toUpperCase\<close> to call.
\<close>

definition optToUpperCase :: "jsval \<Rightarrow> thrown + string option" where
  "optToUpperCase m =
     (if nullish m then Inr None
      else (case m of JStr s \<Rightarrow> Inr (Some (toUpperCase s)) | _ \<Rightarrow> Inl TypeError))"

definition contextMethod :: "ErrorContext option \<Rightarrow> jsval \<Rightarrow> thrown + string option" where
  "contextMethod ctx axiosError =
     optToUpperCase
       (nc (case ctx of None \<Rightarrow> JUndefined
            | Some c \<Rightarrow> (case method c of None \<Rightarrow> JUndefined | Some s \<Rightarrow> JStr s))
           (oprop (oprop axiosError ''config'') ''method''))"

definition contextEndpoint :: "ErrorContext option \<Rightarrow> jsval \<Rightarrow> jsval" where
  "contextEndpoint ctx axiosError =
     nc (case ctx of None \<Rightarrow> JUndefined
         | Some c \<Rightarrow> (case endpoint c of None \<Rightarrow> JUndefined | Some s \<Rightarrow> JStr s))
        (oprop (oprop axiosError ''config'') ''url'')"

text \<open>
  \<^verbatim>\<open>enhanceError\<close>: the enhanced error, or the TypeError that one of the steps throws
  (they throw nothing else, so which of them throws first does not show).
\<close>

definition enhanceError ::
  "'w host \<Rightarrow> 'w \<Rightarrow> jsval \<Rightarrow> ErrorContext option \<Rightarrow> nat option \<Rightarrow> thrown + EnhancedApiError"
where
  "enhanceError h w error ctx rc =
     (let axiosError = (if isAxiosError error then error else JUndefined);
          apiError = (if isApiErrorLike error then error else JUndefined);
          st = nc (oprop (oprop axiosError ''response'') ''status'')
                  (nc (oprop apiError ''status'') (JNum 500))
      in case getErrorCode st error of
           Inl t \<Rightarrow> Inl t
         | Inr c \<Rightarrow>
        (case isRetryable error of
           Inl t \<Rightarrow> Inl t
         | Inr r \<Rightarrow>
        (case extractValidationErrors error axiosError of
           Inl t \<Rightarrow> Inl t
         | Inr es \<Rightarrow>
        (case contextMethod ctx axiosError of
           Inl t \<Rightarrow> Inl t
         | Inr m \<Rightarrow>
             Inr \<lparr> message = getErrorMessage error,
                   status = st,
                   code = c,
                   retryable = r,
                   suggestion = getErrorSuggestion c error,
                   errors = es,
                   context = \<lparr> ctx_endpoint = contextEndpoint ctx axiosError,
                               ctx_method = m,
                               timestamp = toISOString_now h w,
                               requestId = extractRequestId axiosError,
                               retryCount = rc \<rparr> \<rparr>))))"

text \<open>The enhanced error as the JavaScript object it is, for code that probes it again.\<close>

definition js_of_string_option :: "string option \<Rightarrow> jsval" where
  "js_of_string_option s = (case s of None \<Rightarrow> JUndefined | Some t \<Rightarrow> JStr t)"

definition js_of_errors :: "(string \<times> string list) list option \<Rightarrow> jsval" where
  "js_of_errors r =
     (case r of None \<Rightarrow> JUndefined
      | Some kvs \<Rightarrow> JObj (map (\<lambda>(k, vs). (k, JArr (map JStr vs))) kvs))"

definition js_of_context :: "EnhancedContext \<Rightarrow> jsval" where
  "js_of_context c =
     JObj [(''endpoint'', ctx_endpoint c),
           (''method'', js_of_string_option (ctx_method c)),
           (''timestamp'', JStr (timestamp c)),
           (''requestId'', js_of_string_option (requestId c)),
           (''retryCount'', (case retryCount c of None \<Rightarrow> JUndefined | Some n \<Rightarrow> JNum (int n)))]"

definition js_of_enhanced :: "EnhancedApiError \<Rightarrow> jsval" where
  "js_of_enhanced e =
     JObj [(''message'', JStr (message e)),
           (''status'', status e),
           (''code'', JStr (ERROR_CODES (code e))),
           (''retryable'', JBool (retryable e)),
           (''suggestion'', JStr (suggestion e)),
           (''errors'', js_of_errors (errors e)),
           (''context'', js_of_context (context e))]"

section \<open>CircuitBreaker\<close>

datatype CircuitState = CLOSED | OPEN | HALF_OPEN

record CircuitBreakerConfig =
  failureThreshold :: int
  resetTimeout :: int
  monitoringPeriod :: int

record CircuitBreaker =
  config :: CircuitBreakerConfig
  state :: CircuitState
  failures :: int
  successCount :: int
  lastFailureTime :: "int option"
  nextAttemptTime :: "int option"

definition new_CircuitBreaker :: "CircuitBreakerConfig \<Rightarrow> CircuitBreaker" where
  "new_CircuitBreaker cfg =
     \<lparr> config = cfg, state = CLOSED, failures = 0, successCount = 0,
       lastFailureTime = None, nextAttemptTime = None \<rparr>"

definition onSuccess :: "CircuitBreaker \<Rightarrow> CircuitBreaker" where
  "onSuccess cb =
     (if state cb = HALF_OPEN then
        (let cb1 = cb\<lparr>successCount := successCount cb + 1\<rparr> in
         if successCount cb1 \<ge> 3 then cb1\<lparr>state := CLOSED, failures := 0\<rparr> else cb1)
      else if state cb = CLOSED then cb\<lparr>failures := max 0 (failures cb - 1)\<rparr>
      else cb)"

text \<open>\<^verbatim>\<open>onFailure\<close>, with the value \<open>now\<close> of \<^verbatim>\<open>Date.now()\<close>.\<close>

definition onFailure :: "int \<Rightarrow> CircuitBreaker \<Rightarrow> CircuitBreaker" where
  "onFailure now cb =
     (let cb1 = cb\<lparr>failures := failures cb + 1, lastFailureTime := Some now\<rparr> in
      if failures cb1 \<ge> failureThreshold (config cb1)
      then cb1\<lparr>state := OPEN, nextAttemptTime := Some (now + resetTimeout (config cb1))\<rparr>
      else cb1)"

text \<open>The seconds \<^verbatim>\<open>Math.ceil(((nextAttemptTime ?? now) - now) / 1000)\<close> of the suggestion.\<close>

definition remainingSeconds :: "int \<Rightarrow> CircuitBreaker \<Rightarrow> int" where
  "remainingSeconds now cb =
     \<lceil>real_of_int ((case nextAttemptTime cb of None \<Rightarrow> now | Some t \<Rightarrow> t) - now) / 1000\<rceil>"

definition createCircuitOpenError :: "'w host \<Rightarrow> 'w \<Rightarrow> CircuitBreaker \<Rightarrow> EnhancedApiError" where
  "createCircuitOpenError h w cb =
     \<lparr> message = ''Circuit breaker is open - service temporarily unavailable'',
       status = JNum 503,
       code = CIRCUIT_OPEN,
       retryable = False,
       suggestion = ''Service is experiencing issues. Circuit will reset in '' @
                    string_of_int (remainingSeconds (date_now h w) cb) @ '' seconds'',
       errors = None,
       context = \<lparr> ctx_endpoint = JUndefined, ctx_method = None,
                   timestamp = toISOString_now h w, requestId = None, retryCount = None \<rparr> \<rparr>"

text \<open>\<^verbatim>\<open>this.nextAttemptTime || 0\<close>\<close>

definition nextAttemptOrZero :: "CircuitBreaker \<Rightarrow> int" where
  "nextAttemptOrZero cb =
     (case nextAttemptTime cb of None \<Rightarrow> 0 | Some t \<Rightarrow> if t \<noteq> 0 then t else 0)"

text \<open>
  \<^verbatim>\<open>execute\<close>: the wrapped operation \<open>fn\<close> acts on the world and either resolves
  (\<open>Inr\<close>) or rejects (\<open>Inl\<close>). The result is the outcome, the breaker afterwards and the
  world afterwards.
\<close>

definition execute ::
  "'w host \<Rightarrow> ('w \<Rightarrow> (thrown + 'r) \<times> 'w) \<Rightarrow> CircuitBreaker \<Rightarrow> 'w
     \<Rightarrow> (thrown + 'r) \<times> CircuitBreaker \<times> 'w"
where
  "execute h fn cb w =
     (if state cb = OPEN \<and> date_now h w < nextAttemptOrZero cb
      then (Inl (Enhanced (createCircuitOpenError h w cb)), cb, w)
      else
        let cb1 = (if state cb = OPEN then cb\<lparr>state := HALF_OPEN, successCount := 0\<rparr> else cb)
        in case fn w of
             (Inr result, w') \<Rightarrow> (Inr result, onSuccess cb1, w')
           | (Inl error, w') \<Rightarrow> (Inl error, onFailure (date_now h w') cb1, w'))"

text \<open>
  Requests interleave at their \<^verbatim>\<open>await\<close>, so between the entry check of one call and
  its \<^verbatim>\<open>onSuccess\<close> or \<^verbatim>\<open>onFailure\<close> the breaker may see the events of other calls.
  The three atomic events, and the breaker after any sequence of them from a fresh one:
\<close>

datatype cb_event = Enter int | Succeeded | Failed int

fun cb_step :: "CircuitBreaker \<Rightarrow> cb_event \<Rightarrow> CircuitBreaker" where
  "cb_step cb (Enter now) =
     (if state cb = OPEN \<and> \<not> now < nextAttemptOrZero cb
      then cb\<lparr>state := HALF_OPEN, successCount := 0\<rparr> else cb)"
| "cb_step cb Succeeded = onSuccess cb"
| "cb_step cb (Failed now) = onFailure now cb"

definition cb_run :: "CircuitBreakerConfig \<Rightarrow> cb_event list \<Rightarrow> CircuitBreaker" where
  "cb_run cfg evs = foldl cb_step (new_CircuitBreaker cfg) evs"

section \<open>ErrorHandler: retries\<close>

record RetryConfig =
  maxRetries :: int
  baseDelay :: double
  maxDelay :: double
  shouldRetry :: "(EnhancedApiError \<Rightarrow> bool) option"

text \<open>
  The default policy. Its predicate runs \<^verbatim>\<open>isRetryable\<close> on the enhanced error object,
  where it never throws (\<open>default_predicate_returns\<close> below): it reads the status of that
  object only when it is a number.
\<close>

definition defaultRetryConfig :: RetryConfig where
  "defaultRetryConfig =
     \<lparr> maxRetries = 3, baseDelay = Fin 1000, maxDelay = Fin 10000,
       shouldRetry = Some (\<lambda>error. isRetryable (js_of_enhanced error) = Inr True) \<rparr>"

definition defaultCircuitBreakerConfig :: CircuitBreakerConfig where
  "defaultCircuitBreakerConfig =
     \<lparr> failureThreshold = 5, resetTimeout = 60000, monitoringPeriod = 60000 \<rparr>"

text \<open>
  \<^verbatim>\<open>Partial<RetryConfig>\<close>: \<open>None\<close> is a property the caller left out. The constructor
  spreads the options over the defaults, so a predicate passed as undefined
  (\<open>Some None\<close>) replaces the default one.
\<close>

record RetryConfigOptions =
  opt_maxRetries :: "int option"
  opt_baseDelay :: "double option"
  opt_maxDelay :: "double option"
  opt_shouldRetry :: "(EnhancedApiError \<Rightarrow> bool) option option"

definition noRetryOptions :: RetryConfigOptions where
  "noRetryOptions =
     \<lparr> opt_maxRetries = None, opt_baseDelay = None, opt_maxDelay = None, opt_shouldRetry = None \<rparr>"

definition mergeRetryConfig :: "RetryConfig \<Rightarrow> RetryConfigOptions \<Rightarrow> RetryConfig" where
  "mergeRetryConfig d opts =
     \<lparr> maxRetries = (case opt_maxRetries opts of None \<Rightarrow> maxRetries d | Some m \<Rightarrow> m),
       baseDelay = (case opt_baseDelay opts of None \<Rightarrow> baseDelay d | Some b \<Rightarrow> b),
       maxDelay = (case opt_maxDelay opts of None \<Rightarrow> maxDelay d | Some m \<Rightarrow> m),
       shouldRetry = (case opt_shouldRetry opts of None \<Rightarrow> shouldRetry d | Some p \<Rightarrow> p) \<rparr>"

record ErrorHandler =
  circuitBreaker :: CircuitBreaker
  retryConfig :: RetryConfig

definition new_ErrorHandler :: "RetryConfigOptions \<Rightarrow> CircuitBreakerConfig \<Rightarrow> ErrorHandler" where
  "new_ErrorHandler retryConfigOptions circuitBreakerConfig =
     \<lparr> circuitBreaker = new_CircuitBreaker circuitBreakerConfig,
       retryConfig = mergeRetryConfig defaultRetryConfig retryConfigOptions \<rparr>"

text \<open>
  \<^verbatim>\<open>calculateBackoffDelay\<close>, as a function of the value \<open>r\<close> that \<^verbatim>\<open>Math.random()\<close>
  returns.
\<close>

definition calculateBackoffDelay :: "RetryConfig \<Rightarrow> nat \<Rightarrow> double \<Rightarrow> double" where
  "calculateBackoffDelay rc n r =
     (let exponentialDelay = dmul (baseDelay rc) (dpow2 n);
          jitteredDelay = dmul exponentialDelay (dadd (Fin (1 / 2)) (dmul r (Fin (1 / 2))))
      in dmin jitteredDelay (maxDelay rc))"

text \<open>
  \<^verbatim>\<open>retryOperation\<close>: \<open>fn\<close> rejects with a raw failure (\<open>Inl\<close>) or resolves (\<open>Inr\<close>).
\<close>

function retryOperation ::
  "RetryConfig \<Rightarrow> 'w host \<Rightarrow> ('w \<Rightarrow> (jsval + 'r) \<times> 'w) \<Rightarrow> ErrorContext option \<Rightarrow> nat \<Rightarrow> 'w
     \<Rightarrow> (thrown + 'r) \<times> 'w"
where
  "retryOperation rc h fn ctx n w =
     (case fn w of
        (Inr result, w1) \<Rightarrow> (Inr result, w1)
      | (Inl error, w1) \<Rightarrow>
          (case enhanceError h w1 error ctx (Some n) of
             Inl t \<Rightarrow> (Inl t, w1)
           | Inr enhancedError \<Rightarrow>
               if int n < maxRetries rc \<and>
                  (case shouldRetry rc of None \<Rightarrow> False | Some p \<Rightarrow> p enhancedError)
               then
                 (case math_random h w1 of
                    (r, w2) \<Rightarrow>
                      retryOperation rc h fn ctx (n + 1)
                        (sleep h (calculateBackoffDelay rc n r) w2))
               else (Inl (Enhanced enhancedError), w1)))"
  by pat_completeness auto
termination
  by (relation "measure (\<lambda>(rc, h, fn, ctx, n, w). nat (maxRetries rc - int n))") auto

declare retryOperation.simps [simp del]

definition executeWithRetry ::
  "ErrorHandler \<Rightarrow> 'w host \<Rightarrow> ('w \<Rightarrow> (jsval + 'r) \<times> 'w) \<Rightarrow> ErrorContext option \<Rightarrow> 'w
     \<Rightarrow> (thrown + 'r) \<times> ErrorHandler \<times> 'w"
where
  "executeWithRetry eh h fn ctx w =
     (case execute h (\<lambda>w0. retryOperation (retryConfig eh) h fn ctx 0 w0) (circuitBreaker eh) w of
        (res, cb', w') \<Rightarrow> (res, eh\<lparr>circuitBreaker := cb'\<rparr>, w'))"

section \<open>MixpostClient.executeRequest\<close>

record 'a HttpResponse =
  data :: 'a
  http_status :: int
  statusText :: string
  headers :: "(string \<times> string) list"

record MixpostClient =
  errorHandler :: ErrorHandler
  enableRetry :: bool

definition executeRequest ::
  "MixpostClient \<Rightarrow> 'w host \<Rightarrow> ('w \<Rightarrow> (jsval + 'a HttpResponse) \<times> 'w) \<Rightarrow> ErrorContext option
     \<Rightarrow> 'w \<Rightarrow> (thrown + 'a) \<times> MixpostClient \<times> 'w"
where
  "executeRequest cl h request ctx w =
     (if enableRetry cl then
        (case executeWithRetry (errorHandler cl) h request ctx w of
           (Inr response, eh', w') \<Rightarrow> (Inr (data response), cl\<lparr>errorHandler := eh'\<rparr>, w')
         | (Inl t, eh', w') \<Rightarrow> (Inl t, cl\<lparr>errorHandler := eh'\<rparr>, w'))
      else
        (case request w of
           (Inr response, w') \<Rightarrow> (Inr (data response), cl, w')
         | (Inl error, w') \<Rightarrow>
             (case enhanceError h w' error ctx None of
                Inl t \<Rightarrow> (Inl t, cl, w')
              | Inr enhancedError \<Rightarrow> (Inl (Enhanced enhancedError), cl, w'))))"

text \<open>
  Counting attempts: an operation wrapped so that the world records how often it ran,
  as the repository's tests do with \<^verbatim>\<open>attempts++\<close>, and the host lifted to such worlds.
\<close>

definition counted :: "('w \<Rightarrow> 'x \<times> 'w) \<Rightarrow> 'w \<times> nat \<Rightarrow> 'x \<times> ('w \<times> nat)" where
  "counted fn = (\<lambda>(w, k). case fn w of (x, w') \<Rightarrow> (x, (w', Suc k)))"

definition counted_host :: "'w host \<Rightarrow> ('w \<times> nat) host" where
  "counted_host h =
     \<lparr> date_now = (\<lambda>(w, k). date_now h w),
       toISOString_now = (\<lambda>(w, k). toISOString_now h w),
       math_random = (\<lambda>(w, k). case math_random h w of (r, w') \<Rightarrow> (r, (w', k))),
       sleep = (\<lambda>ms (w, k). (sleep h ms w, k)) \<rparr>"

section \<open>Vocabulary of the specification\<close>

text \<open>The status-to-code table as the specification lists it.\<close>

definition statusCodeTable :: "int \<Rightarrow> ErrorCode" where
  "statusCodeTable s =
     (if s = 400 then BAD_REQUEST else if s = 401 then UNAUTHORIZED
      else if s = 403 then FORBIDDEN else if s = 404 then NOT_FOUND
      else if s = 405 then METHOD_NOT_ALLOWED else if s = 409 then CONFLICT
      else if s = 422 then UNPROCESSABLE_ENTITY else if s = 429 then TOO_MANY_REQUESTS
      else if s = 500 then INTERNAL_SERVER_ERROR else if s = 502 then BAD_GATEWAY
      else if s = 503 then SERVICE_UNAVAILABLE else if s = 504 then GATEWAY_TIMEOUT
      else if s \<ge> 500 then INTERNAL_SERVER_ERROR else BAD_REQUEST)"

text \<open>
  The retry policy as the specification states it, on a classified code and status:
  never for \<open>CIRCUIT_OPEN\<close>; among 4xx only 429 and 408; otherwise from 500 upwards.
\<close>

definition retryPolicy :: "ErrorCode \<Rightarrow> int \<Rightarrow> bool" where
  "retryPolicy c s =
     (c \<noteq> CIRCUIT_OPEN \<and> (if 400 \<le> s \<and> s < 500 then s = 429 \<or> s = 408 else s \<ge> 500))"

text \<open>
  Normalisation of a validation value to a list of strings, as the specification words it:
  an array becomes the list of its stringified elements, any other value is stringified
  and wrapped. \<open>None\<close> when a value cannot be stringified.
\<close>

definition normalizeValue :: "jsval \<Rightarrow> string list option" where
  "normalizeValue v =
     (case v of
        JArr vs \<Rightarrow> those (map js_String vs)
      | _ \<Rightarrow> map_option (\<lambda>s. [s]) (js_String v))"

text \<open>
  Normalisation of a validation map: the fields in order, every value normalised, the
  fields whose value is null or undefined left out.
\<close>

fun normalizeEntries :: "(string \<times> jsval) list \<Rightarrow> (string \<times> string list) list option" where
  "normalizeEntries [] = Some []"
| "normalizeEntries ((k, v) # kvs) =
     (if nullish v then normalizeEntries kvs
      else (case normalizeValue v of
              None \<Rightarrow> None
            | Some vs \<Rightarrow> map_option ((#) (k, vs)) (normalizeEntries kvs)))"

text \<open>
  The values of a validation map can all be stringified: the elements of every array
  value, and every other value.
\<close>

definition entriesStringifiable :: "jsval \<Rightarrow> bool" where
  "entriesStringifiable es =
     list_all (\<lambda>kv. case snd kv of JArr vs \<Rightarrow> list_all stringifiable vs | v \<Rightarrow> stringifiable v)
       (Object_entries es)"

text \<open>
  The attempts of a run of \<^const>\<open>retryOperation\<close> that starts in the world \<open>w\<close>.
  If every attempt before the \<open>n\<close>-th has failed and been retried, the \<open>n\<close>-th attempt
  starts in the world \<open>attemptWorld rc h fn n w\<close>: the world the previous attempt left,
  after the random draw and the wait of the backoff.
\<close>

fun attemptWorld ::
  "RetryConfig \<Rightarrow> 'w host \<Rightarrow> ('w \<Rightarrow> (jsval + 'r) \<times> 'w) \<Rightarrow> nat \<Rightarrow> 'w \<Rightarrow> 'w" where
  "attemptWorld rc h fn 0 w = w"
| "attemptWorld rc h fn (Suc n) w =
     (case fn (attemptWorld rc h fn n w) of
        (x, w1) \<Rightarrow>
          (case math_random h w1 of
             (r, w2) \<Rightarrow> sleep h (calculateBackoffDelay rc n r) w2))"

text \<open>
  The \<open>n\<close>-th attempt of the run fails with an error the retry predicate accepts: the
  operation rejects, the raw failure is classified (with retry count \<open>n\<close>), and the
  policy's predicate holds of the enhanced error.
\<close>

definition attemptAccepted ::
  "RetryConfig \<Rightarrow> 'w host \<Rightarrow> ('w \<Rightarrow> (jsval + 'r) \<times> 'w) \<Rightarrow> ErrorContext option \<Rightarrow> 'w \<Rightarrow> nat
     \<Rightarrow> bool" where
  "attemptAccepted rc h fn ctx w n =
     (case fn (attemptWorld rc h fn n w) of
        (Inr result, w1) \<Rightarrow> False
      | (Inl error, w1) \<Rightarrow>
          (case enhanceError h w1 error ctx (Some n) of
             Inl t \<Rightarrow> False
           | Inr e \<Rightarrow> (case shouldRetry rc of None \<Rightarrow> False | Some p \<Rightarrow> p e)))"

text \<open>
  A small host for concrete runs: the world is the clock in milliseconds, every random
  draw is one half, and waiting advances the clock by the delay rounded up (not at all for
  a delay that is not finite).
\<close>

definition clockHost :: "int host" where
  "clockHost =
     \<lparr> date_now = (\<lambda>w. w),
       toISOString_now = (\<lambda>w. string_of_int w),
       math_random = (\<lambda>w. (Fin (1 / 2), w)),
       sleep = (\<lambda>ms w. case ms of Fin d \<Rightarrow> w + \<lceil>d\<rceil> | _ \<Rightarrow> w) \<rparr>"

text \<open>The response body \<^verbatim>\<open>axiosError?.response?.data\<close> of a raw failure.\<close>

definition responseData :: "jsval \<Rightarrow> jsval" where
  "responseData error =
     oprop (oprop (if isAxiosError error then error else JUndefined) ''response'') ''data''"

text \<open>
  The invariant of the breaker under a configuration: the configuration never changes,
  and outside CLOSED the failure counter has reached the threshold.
\<close>

definition breakerInvariant :: "CircuitBreakerConfig \<Rightarrow> CircuitBreaker \<Rightarrow> bool" where
  "breakerInvariant cfg cb \<longleftrightarrow>
     config cb = cfg \<and> (state cb \<noteq> CLOSED \<longrightarrow> failureThreshold cfg \<le> failures cb)"

text \<open>Two operations on the clock world: one always rejects, one always resolves.\<close>

definition alwaysThrows :: "int \<Rightarrow> (thrown + unit) \<times> int" where
  "alwaysThrows w = (Inl TypeError, w + 1)"

definition alwaysResolves :: "int \<Rightarrow> (thrown + unit) \<times> int" where
  "alwaysResolves w = (Inr (), w + 1)"

definition thresholdOne :: CircuitBreakerConfig where
  "thresholdOne = \<lparr> failureThreshold = 1, resetTimeout = 100, monitoringPeriod = 1000 \<rparr>"

text \<open>The breaker of \<^const>\<open>thresholdOne\<close> after one failure at time 1.\<close>

definition openedAtOne :: CircuitBreaker where
  "openedAtOne =
     \<lparr> config = thresholdOne, state = OPEN, failures = 1, successCount = 0,
       lastFailureTime = Some 1, nextAttemptTime = Some 101 \<rparr>"

text \<open>
  Two raw operations on the clock world, as the repository's retry tests write them: one
  always rejects with a status 500 failure, one with a status 400 failure.
\<close>

definition alwaysServerError :: "int \<Rightarrow> (jsval + unit) \<times> int" where
  "alwaysServerError w =
     (Inl (JObj [(''status'', JNum 500), (''message'', JStr ''Server error'')]), w + 1)"

definition alwaysBadRequest :: "int \<Rightarrow> (jsval + unit) \<times> int" where
  "alwaysBadRequest w =
     (Inl (JObj [(''status'', JNum 400), (''message'', JStr ''Bad request'')]), w + 1)"

text \<open>The default policy with a predicate of the caller's that accepts status 503 only.\<close>

definition only503 :: RetryConfig where
  "only503 = defaultRetryConfig\<lparr>shouldRetry := Some (\<lambda>error. status error = JNum 503)\<rparr>"

text \<open>
  The default policy with a predicate of the caller's that looks at the retry count: it
  accepts an error stamped with a count below 10.
\<close>

definition fewerThanTen :: RetryConfig where
  "fewerThanTen =
     defaultRetryConfig\<lparr>shouldRetry :=
       Some (\<lambda>error. case retryCount (context error) of None \<Rightarrow> False | Some k \<Rightarrow> k < 10)\<rparr>"

text \<open>The default policy with the least positive double as base delay.\<close>

definition tinyBase :: RetryConfig where
  "tinyBase = defaultRetryConfig\<lparr>baseDelay := Fin MIN_VALUE\<rparr>"

text \<open>
  Raw failures: an axios error that carries an ApiError-like status 500 and a response
  status 400; a bare object with a status and no message; a validation failure whose map
  has a field named \<^verbatim>\<open>__proto__\<close>, as \<^verbatim>\<open>JSON.parse\<close> builds it.
\<close>

definition mixedStatusFailure :: jsval where
  "mixedStatusFailure =
     JObj [(''isAxiosError'', JBool True), (''status'', JNum 500),
           (''message'', JStr ''Server error''),
           (''response'', JObj [(''status'', JNum 400)])]"

definition bareStatusFailure :: jsval where
  "bareStatusFailure = JObj [(''status'', JNum 404)]"

definition protoFieldFailure :: jsval where
  "protoFieldFailure =
     JObj [(''status'', JNum 422), (''message'', JStr ''Validation failed''),
           (''errors'', JObj [(''__proto__'', JArr [JStr ''x''])])]"

text \<open>
  A client with retries disabled, a request that always rejects with a status 500 failure
  and one that always resolves.
\<close>

definition plainClient :: MixpostClient where
  "plainClient =
     \<lparr> errorHandler = new_ErrorHandler noRetryOptions defaultCircuitBreakerConfig,
       enableRetry = False \<rparr>"

definition serverErrorRequest :: "int \<Rightarrow> (jsval + string HttpResponse) \<times> int" where
  "serverErrorRequest w =
     (Inl (JObj [(''status'', JNum 500), (''message'', JStr ''Server error'')]), w + 1)"

definition okRequest :: "int \<Rightarrow> (jsval + string HttpResponse) \<times> int" where
  "okRequest w =
     (Inr \<lparr> data = ''success'', http_status = 200, statusText = ''OK'', headers = [] \<rparr>, w + 1)"

text \<open>A request that resolves with the same data as \<^const>\<open>okRequest\<close> but status 201.\<close>

definition createdRequest :: "int \<Rightarrow> (jsval + string HttpResponse) \<times> int" where
  "createdRequest w =
     (Inr \<lparr> data = ''success'', http_status = 201, statusText = ''Created'', headers = [] \<rparr>,
      w + 1)"

section \<open>Reading the raw failure\<close>

lemma axiosError_not_nullish: "isAxiosError e \<Longrightarrow> \<not> nullish e"
  by (cases e) (auto simp: isAxiosError_def)

lemma apiErrorLike_not_nullish: "isApiErrorLike e \<Longrightarrow> \<not> nullish e"
  by (cases e) (auto simp: isApiErrorLike_def)

lemma axios_status_read:
  "oprop (oprop (if isAxiosError e then e else JUndefined) ''response'') ''status'' = axiosResponseStatus e"
  by (simp add: axiosResponseStatus_def oprop_def axiosError_not_nullish)

lemma api_status_read:
  "oprop (if isApiErrorLike e then e else JUndefined) ''status'' = apiErrorStatus e"
  by (simp add: apiErrorStatus_def oprop_def apiErrorLike_not_nullish)

lemma enhanceError_fields:
  assumes "enhanceError h w e ctx rc = Inr out"
  shows "status out = nc (axiosResponseStatus e) (nc (apiErrorStatus e) (JNum 500))"
    and "getErrorCode (status out) e = Inr (code out)"
    and "isRetryable e = Inr (retryable out)"
    and "message out = getErrorMessage e"
    and "extractValidationErrors e (if isAxiosError e then e else JUndefined) = Inr (errors out)"
  using assms
  by (auto simp: enhanceError_def Let_def axios_status_read api_status_read split: sum.splits)

lemma getp_defined:
  assumes "getp e k \<noteq> JUndefined"
  shows "\<exists>kvs. e = JObj kvs \<and> k \<in> fst ` set kvs"
proof (cases e)
  case (JObj kvs)
  with assms obtain v where "map_of kvs k = Some v"
    by (auto split: option.splits)
  then have "(k, v) \<in> set kvs" by (rule map_of_SomeD)
  then have "k \<in> fst ` set kvs" by force
  with JObj show ?thesis by simp
qed (use assms in auto)

lemma getp_undefined: "\<not> has_prop k e \<Longrightarrow> getp e k = JUndefined"
proof (cases e)
  case (JObj kvs)
  assume "\<not> has_prop k e"
  with JObj have "k \<notin> fst ` set kvs" by simp
  then have "map_of kvs k = None" by (simp add: map_of_eq_None_iff)
  with JObj show ?thesis by simp
qed simp_all

lemma oprop_getp: "oprop v k = getp v k"
  by (cases v) (simp_all add: oprop_def)

text \<open>The guards of the classifier, in terms of the properties of the raw failure.\<close>

lemma isAxiosError_getp: "isAxiosError e \<longleftrightarrow> getp e ''isAxiosError'' = JBool True"
proof
  assume "getp e ''isAxiosError'' = JBool True"
  then have "getp e ''isAxiosError'' \<noteq> JUndefined" by simp
  from getp_defined [OF this] obtain kvs where "e = JObj kvs" "''isAxiosError'' \<in> fst ` set kvs"
    by blast
  with \<open>getp e ''isAxiosError'' = JBool True\<close> show "isAxiosError e"
    by (simp add: isAxiosError_def)
qed (simp add: isAxiosError_def)

lemma isApiErrorLike_getp:
  "isApiErrorLike e \<longleftrightarrow> (\<exists>n. getp e ''status'' = JNum n) \<and> (\<exists>m. getp e ''message'' = JStr m)"
proof
  assume "isApiErrorLike e"
  then have "typeof (getp e ''status'') = T_number" "typeof (getp e ''message'') = T_string"
    by (auto simp: isApiErrorLike_def split: if_splits)
  then show "(\<exists>n. getp e ''status'' = JNum n) \<and> (\<exists>m. getp e ''message'' = JStr m)"
    by (cases "getp e ''status''"; cases "getp e ''message''") simp_all
next
  assume a: "(\<exists>n. getp e ''status'' = JNum n) \<and> (\<exists>m. getp e ''message'' = JStr m)"
  then have "getp e ''status'' \<noteq> JUndefined" by auto
  from getp_defined [OF this] obtain kvs where "e = JObj kvs" by blast
  with a show "isApiErrorLike e" by (auto simp: isApiErrorLike_def)
qed

lemma hasResponse_getp: "hasResponse e \<longleftrightarrow> getp e ''response'' \<noteq> JUndefined"
proof (cases "isAxiosError e")
  case True
  then show ?thesis by (cases "getp e ''response''") (simp_all add: hasResponse_def)
next
  case False
  show ?thesis
  proof (cases "has_prop ''response'' e")
    case True
    then obtain kvs where "e = JObj kvs" by (cases e) simp_all
    with True False show ?thesis by (simp add: hasResponse_def)
  next
    case no: False
    from getp_undefined [OF this] no False show ?thesis by (simp add: hasResponse_def)
  qed
qed

lemma extractPlainMessage_getp:
  "extractPlainMessage e = Some m \<longleftrightarrow> getp e ''message'' = JStr m"
proof (cases "isApiErrorLike e")
  case True
  then show ?thesis
    by (cases "getp e ''message''") (simp_all add: extractPlainMessage_def)
next
  case False
  show ?thesis
  proof (cases "has_prop ''message'' e")
    case True
    then obtain kvs where "e = JObj kvs" by (cases e) simp_all
    with True False show ?thesis
      by (cases "getp e ''message''") (simp_all add: extractPlainMessage_def)
  next
    case no: False
    from getp_undefined [OF this] no False show ?thesis
      by (simp add: extractPlainMessage_def)
  qed
qed

lemma axiosResponseStatus_getp:
  "axiosResponseStatus e =
     (if getp e ''isAxiosError'' = JBool True then getp (getp e ''response'') ''status''
      else JUndefined)"
  by (simp add: axiosResponseStatus_def oprop_getp isAxiosError_getp)

lemma apiErrorStatus_cases: "apiErrorStatus e = JUndefined \<or> (\<exists>n. apiErrorStatus e = JNum n)"
  by (auto simp: apiErrorStatus_def isApiErrorLike_getp)

lemma rawErrorCode_defined:
  assumes "getp e ''code'' \<noteq> JUndefined" and "getp e ''code'' \<noteq> JNull"
  shows "rawErrorCode e = getp e ''code''"
proof -
  from getp_defined [OF assms(1)] obtain kvs where e: "e = JObj kvs" and k: "''code'' \<in> fst ` set kvs"
    by blast
  have n: "\<not> nullish (getp e ''code'')" using assms by (cases "getp e ''code''") auto
  show ?thesis using e k n
    by (auto simp: rawErrorCode_def nc_def)
qed

lemma rawErrorCode_cases: "rawErrorCode e = getp e ''code'' \<or> rawErrorCode e = JUndefined"
proof (cases "nullish (getp e ''code'')")
  case False
  then have "getp e ''code'' \<noteq> JUndefined" "getp e ''code'' \<noteq> JNull" by auto
  then show ?thesis by (simp add: rawErrorCode_defined)
next
  case True
  then show ?thesis by (auto simp: rawErrorCode_def nc_def)
qed

lemma getErrorCode_table:
  assumes "rawErrorCode e \<noteq> JStr ''ECONNABORTED''"
    and "rawErrorCode e \<noteq> JStr ''ECONNREFUSED''"
    and "rawErrorCode e \<noteq> JStr ''CIRCUIT_OPEN''"
    and "\<not> (\<not> hasResponse e \<and> extractPlainMessage e = Some ''Network Error'')"
  shows "getErrorCode (JNum s) e = Inr (statusCodeTable s)"
  using assms by (simp add: getErrorCode_def statusCodeTable_def js_ge_def Let_def)

text \<open>The definitions a concrete classification unfolds.\<close>

lemmas classify_defs =
  enhanceError_def isAxiosError_def isApiErrorLike_def hasResponse_def extractPlainMessage_def
  rawErrorCode_def getErrorCode_def responseBodyMessage_def getErrorMessage_def
  apiErrorStatus_def axiosResponseStatus_def isClientErrorStatus_def isRetryable_def
  getErrorSuggestion_def assignField_def nonEmptyResult_def extractValidationErrors_def
  extractRequestId_def optToUpperCase_def contextMethod_def contextEndpoint_def oprop_def nc_def
  js_ge_def js_lt_def Let_def

section \<open>Status to code\<close>

text \<open>
  A failure that carries a status but no message is not ApiError-like, and it is no axios
  error: its status is not read, and it is classified with status 500 and code
  INTERNAL_SERVER_ERROR, not with its own status 404 and NOT_FOUND.
\<close>

theorem status_not_read_counterexample:
  "\<exists>out. enhanceError clockHost 0 bareStatusFailure None None = Inr out \<and>
         getp bareStatusFailure ''status'' = JNum 404 \<and>
         status out = JNum 500 \<and> code out = INTERNAL_SERVER_ERROR \<and>
         statusCodeTable 404 = NOT_FOUND"
  by (simp add: classify_defs bareStatusFailure_def statusCodeTable_def)

text \<open>
  Claim C4, as amended. The classifier reads the HTTP status of a raw failure in two
  places: the \<^verbatim>\<open>response.status\<close> of an axios error (a failure whose
  \<^verbatim>\<open>isAxiosError\<close> is \<^verbatim>\<open>true\<close>), and otherwise the \<^verbatim>\<open>status\<close> of a failure that
  has a numeric status together with a string message. For every raw failure that carries
  the number \<open>s\<close> as its status in one of these two places and matches no earlier rule (its
  code is none of ECONNABORTED, ECONNREFUSED, CIRCUIT_OPEN, and it is not a "Network Error"
  without response), if \<^const>\<open>enhanceError\<close> returns \<open>out\<close> then the code of \<open>out\<close> is
  the table's entry for \<open>s\<close> (with the defaults INTERNAL_SERVER_ERROR from 500 upwards and
  BAD_REQUEST below) and the status of \<open>out\<close> is \<open>s\<close>.
\<close>

theorem status_code_table:
  assumes carried:
      "(getp e ''isAxiosError'' = JBool True \<and> getp (getp e ''response'') ''status'' = JNum s) \<or>
       ((getp e ''isAxiosError'' \<noteq> JBool True \<or> nullish (getp (getp e ''response'') ''status'')) \<and>
        getp e ''status'' = JNum s \<and> (\<exists>m. getp e ''message'' = JStr m))"
    and no_aborted: "getp e ''code'' \<noteq> JStr ''ECONNABORTED''"
    and no_refused: "getp e ''code'' \<noteq> JStr ''ECONNREFUSED''"
    and no_marker: "getp e ''code'' \<noteq> JStr ''CIRCUIT_OPEN''"
    and not_bare: "\<not> (getp e ''message'' = JStr ''Network Error'' \<and> getp e ''response'' = JUndefined)"
    and returned: "enhanceError h w e ctx rc = Inr out"
  shows "code out = statusCodeTable s \<and> status out = JNum s"
proof -
  from carried have "axiosResponseStatus e = JNum s \<or>
      (nullish (axiosResponseStatus e) \<and> apiErrorStatus e = JNum s)"
    by (auto simp: axiosResponseStatus_getp apiErrorStatus_def isApiErrorLike_getp)
  then have st: "status out = JNum s"
    by (auto simp: enhanceError_fields(1) [OF returned] nc_def)
  have "rawErrorCode e \<noteq> JStr ''ECONNABORTED''" "rawErrorCode e \<noteq> JStr ''ECONNREFUSED''"
    "rawErrorCode e \<noteq> JStr ''CIRCUIT_OPEN''"
    using rawErrorCode_cases [of e] no_aborted no_refused no_marker by auto
  moreover have "\<not> (\<not> hasResponse e \<and> extractPlainMessage e = Some ''Network Error'')"
    using not_bare by (auto simp: hasResponse_getp extractPlainMessage_getp)
  ultimately have "getErrorCode (JNum s) e = Inr (statusCodeTable s)"
    by (rule getErrorCode_table)
  with st enhanceError_fields(2) [OF returned] show ?thesis by simp
qed

theorem status_code_table_witness:
  "(\<exists>out. enhanceError clockHost 0
            (JObj [(''isAxiosError'', JBool True), (''message'', JStr ''Not found''),
                   (''response'', JObj [(''status'', JNum 404)])]) None None = Inr out \<and>
          code out = NOT_FOUND \<and> status out = JNum 404) \<and>
   (\<exists>out. enhanceError clockHost 0
            (JObj [(''status'', JNum 503), (''message'', JStr ''Service unavailable'')])
            None None = Inr out \<and>
          code out = SERVICE_UNAVAILABLE \<and> status out = JNum 503)"
proof -
  let ?a = "JObj [(''isAxiosError'', JBool True), (''message'', JStr ''Not found''),
                  (''response'', JObj [(''status'', JNum 404)])]"
  let ?b = "JObj [(''status'', JNum 503), (''message'', JStr ''Service unavailable'')]"
  have "\<exists>out. enhanceError clockHost 0 ?a None None = Inr out"
    by (simp add: classify_defs)
  then obtain outa where outa: "enhanceError clockHost 0 ?a None None = Inr outa" ..
  have ca: "(getp ?a ''isAxiosError'' = JBool True \<and> getp (getp ?a ''response'') ''status'' = JNum 404) \<or>
       ((getp ?a ''isAxiosError'' \<noteq> JBool True \<or> nullish (getp (getp ?a ''response'') ''status'')) \<and>
        getp ?a ''status'' = JNum 404 \<and> (\<exists>m. getp ?a ''message'' = JStr m))"
    by simp
  have a: "code outa = statusCodeTable 404 \<and> status outa = JNum 404"
    by (rule status_code_table [OF ca _ _ _ _ outa]) simp_all
  have "\<exists>out. enhanceError clockHost 0 ?b None None = Inr out"
    by (simp add: classify_defs)
  then obtain outb where outb: "enhanceError clockHost 0 ?b None None = Inr outb" ..
  have cb: "(getp ?b ''isAxiosError'' = JBool True \<and> getp (getp ?b ''response'') ''status'' = JNum 503) \<or>
       ((getp ?b ''isAxiosError'' \<noteq> JBool True \<or> nullish (getp (getp ?b ''response'') ''status'')) \<and>
        getp ?b ''status'' = JNum 503 \<and> (\<exists>m. getp ?b ''message'' = JStr m))"
    by simp
  have b: "code outb = statusCodeTable 503 \<and> status outb = JNum 503"
    by (rule status_code_table [OF cb _ _ _ _ outb]) simp_all
  from a b outa outb show ?thesis by (simp add: statusCodeTable_def)
qed

section \<open>Timeouts\<close>

text \<open>
  The repository's own timeout fixture, a failure with code ECONNABORTED and no status,
  is classified with code TIMEOUT but status 500, not 408.
\<close>

theorem timeout_status_counterexample:
  "\<exists>out. enhanceError clockHost 0
            (JObj [(''code'', JStr ''ECONNABORTED''), (''message'', JStr ''Request timeout'')])
            None None = Inr out \<and>
         code out = TIMEOUT \<and> status out = JNum 500 \<and> status out \<noteq> JNum 408"
  by (simp add: classify_defs)

text \<open>
  Claim C5, as amended. A raw failure whose code is ECONNABORTED is classified with code
  TIMEOUT whatever status it carries; the status of the result is not rewritten: it is the
  status the failure carries (axios response status first, then the status of an
  ApiError-like failure), and 500 when it carries none.
\<close>

theorem timeout_code_and_status:
  assumes aborted: "getp e ''code'' = JStr ''ECONNABORTED''"
    and returned: "enhanceError h w e ctx rc = Inr out"
  shows "code out = TIMEOUT \<and>
         (axiosResponseStatus e = JNum s \<longrightarrow> status out = JNum s) \<and>
         (nullish (axiosResponseStatus e) \<and> apiErrorStatus e = JNum s \<longrightarrow> status out = JNum s) \<and>
         (nullish (axiosResponseStatus e) \<and> nullish (apiErrorStatus e) \<longrightarrow> status out = JNum 500)"
proof -
  have "rawErrorCode e = JStr ''ECONNABORTED''"
    using aborted by (simp add: rawErrorCode_defined)
  then have "getErrorCode (status out) e = Inr TIMEOUT"
    by (simp add: getErrorCode_def)
  with enhanceError_fields(2) [OF returned] have "code out = TIMEOUT" by simp
  then show ?thesis
    by (auto simp: enhanceError_fields(1) [OF returned] nc_def)
qed

theorem timeout_code_and_status_witness:
  "\<exists>out. enhanceError clockHost 0
            (JObj [(''isAxiosError'', JBool True), (''message'', JStr ''Request timeout''),
                   (''code'', JStr ''ECONNABORTED''),
                   (''response'', JObj [(''status'', JNum 408)])]) None None = Inr out \<and>
         code out = TIMEOUT \<and> status out = JNum 408"
proof -
  let ?e = "JObj [(''isAxiosError'', JBool True), (''message'', JStr ''Request timeout''),
                   (''code'', JStr ''ECONNABORTED''),
                   (''response'', JObj [(''status'', JNum 408)])]"
  have "\<exists>out. enhanceError clockHost 0 ?e None None = Inr out"
    by (simp add: classify_defs)
  then obtain out where out: "enhanceError clockHost 0 ?e None None = Inr out" ..
  have a: "getp ?e ''code'' = JStr ''ECONNABORTED''" by simp
  have s: "axiosResponseStatus ?e = JNum 408" by (simp add: classify_defs)
  from timeout_code_and_status [OF a out, of 408] s out show ?thesis by simp
qed

section \<open>Retryability\<close>

lemma getErrorCode_circuit_open:
  "getErrorCode st e = Inr CIRCUIT_OPEN \<longleftrightarrow> rawErrorCode e = JStr ''CIRCUIT_OPEN''"
  by (simp add: getErrorCode_def Let_def split: option.splits)

lemma isRetryable_number:
  assumes "nc (apiErrorStatus e) (axiosResponseStatus e) = JNum s"
  shows "isRetryable e = Inr (rawErrorCode e \<noteq> JStr ''CIRCUIT_OPEN'' \<and>
           (if 400 \<le> s \<and> s < 500 then s = 429 \<or> s = 408 else s \<ge> 500))"
  using assms
  by (auto simp: isRetryable_def isClientErrorStatus_def Let_def js_ge_def js_lt_def)

lemma isRetryable_no_status:
  assumes "nc (apiErrorStatus e) (axiosResponseStatus e) = JUndefined"
  shows "isRetryable e = Inr (rawErrorCode e \<noteq> JStr ''CIRCUIT_OPEN'')"
  using assms
  by (auto simp: isRetryable_def isClientErrorStatus_def Let_def js_ge_def js_lt_def)

lemma ERROR_CODES_circuit: "ERROR_CODES c = ''CIRCUIT_OPEN'' \<longleftrightarrow> c = CIRCUIT_OPEN"
  by (cases c) simp_all

text \<open>
  The default retry predicate runs \<^const>\<open>isRetryable\<close> on the enhanced error. That
  object is no axios error, and its status is read only when it is a number: the call never
  throws, and on a numeric status it answers as the policy of the specification does.
\<close>

lemma enhanced_raw_code: "rawErrorCode (js_of_enhanced e) = JStr (ERROR_CODES (code e))"
  by (simp add: rawErrorCode_def js_of_enhanced_def nc_def)

lemma enhanced_status_read:
  "nc (apiErrorStatus (js_of_enhanced e)) (axiosResponseStatus (js_of_enhanced e)) =
     (case status e of JNum n \<Rightarrow> JNum n | _ \<Rightarrow> JUndefined)"
  by (cases "status e")
     (simp_all add: apiErrorStatus_def axiosResponseStatus_def isApiErrorLike_def isAxiosError_def
        js_of_enhanced_def nc_def)

lemma default_predicate_policy:
  assumes "status e = JNum s"
  shows "isRetryable (js_of_enhanced e) = Inr (retryPolicy (code e) s)"
proof -
  have "nc (apiErrorStatus (js_of_enhanced e)) (axiosResponseStatus (js_of_enhanced e)) = JNum s"
    using assms by (simp add: enhanced_status_read)
  from isRetryable_number [OF this] show ?thesis
    by (simp add: enhanced_raw_code ERROR_CODES_circuit retryPolicy_def)
qed

lemma default_predicate_returns: "\<exists>b. isRetryable (js_of_enhanced e) = Inr b"
proof (cases "\<exists>n. status e = JNum n")
  case True
  then show ?thesis using default_predicate_policy by blast
next
  case False
  then have "nc (apiErrorStatus (js_of_enhanced e)) (axiosResponseStatus (js_of_enhanced e)) = JUndefined"
    by (cases "status e") (simp_all add: enhanced_status_read)
  from isRetryable_no_status [OF this] show ?thesis by blast
qed

text \<open>
  Where a raw failure carries one status only, or the same status in both places, the
  retryable flag of the result follows the policy of the specification on the classified
  code and status; a failure with no status is classified with status 500 and is retryable
  unless its code is CIRCUIT_OPEN.
\<close>

lemma retryable_follows_policy:
  assumes returned: "enhanceError h w e ctx rc = Inr out"
    and typed: "axiosResponseStatus e = JUndefined \<or> (\<exists>n. axiosResponseStatus e = JNum n)"
    and agree: "axiosResponseStatus e = JUndefined \<or> apiErrorStatus e = JUndefined \<or>
                axiosResponseStatus e = apiErrorStatus e"
  shows "\<exists>s. status out = JNum s \<and> retryable out = retryPolicy (code out) s \<and>
             (axiosResponseStatus e = JUndefined \<and> apiErrorStatus e = JUndefined \<longrightarrow>
                s = 500 \<and> retryable out = (code out \<noteq> CIRCUIT_OPEN))"
proof -
  note st = enhanceError_fields(1) [OF returned]
  note cd = enhanceError_fields(2) [OF returned]
  note rt = enhanceError_fields(3) [OF returned]
  have co: "code out = CIRCUIT_OPEN \<longleftrightarrow> rawErrorCode e = JStr ''CIRCUIT_OPEN''"
    using getErrorCode_circuit_open [of "status out" e] cd by auto
  show ?thesis
  proof (cases "axiosResponseStatus e = JUndefined \<and> apiErrorStatus e = JUndefined")
    case True
    then have "status out = JNum 500" by (simp add: st nc_def)
    moreover have "isRetryable e = Inr (rawErrorCode e \<noteq> JStr ''CIRCUIT_OPEN'')"
      using True by (intro isRetryable_no_status) (simp add: nc_def)
    ultimately show ?thesis using co rt by (simp add: retryPolicy_def)
  next
    case False
    with typed agree apiErrorStatus_cases [of e]
    obtain s where s: "nc (axiosResponseStatus e) (nc (apiErrorStatus e) (JNum 500)) = JNum s"
      "nc (apiErrorStatus e) (axiosResponseStatus e) = JNum s"
      by (auto simp: nc_def)
    from isRetryable_number [OF s(2)] s(1) co False rt show ?thesis
      by (auto simp: st retryPolicy_def)
  qed
qed

text \<open>
  Claim C2. The flag is computed by \<^const>\<open>isRetryable\<close> from the raw failure, which
  reads the status as \<^verbatim>\<open>error.status ?? response.status\<close>, while \<^const>\<open>enhanceError\<close>
  reads the classified status as \<^verbatim>\<open>response.status ?? error.status\<close>. At an axios error
  with the ApiError-like status 500 and the response status 400 the two disagree: the
  result has status 400 and code BAD_REQUEST and is flagged retryable, where the policy of
  the specification (a 4xx status other than 429 and 408 is not retryable) says it is not,
  and so does the default retry predicate, which runs the same function on the result.
\<close>

theorem retryable_flag_diverges:
  "\<exists>out. enhanceError clockHost 0 mixedStatusFailure None None = Inr out \<and>
         status out = JNum 400 \<and> code out = BAD_REQUEST \<and> retryable out = True \<and>
         retryPolicy (code out) 400 = False \<and>
         isRetryable (js_of_enhanced out) = Inr False"
proof -
  have "\<exists>out. enhanceError clockHost 0 mixedStatusFailure None None = Inr out \<and>
         status out = JNum 400 \<and> code out = BAD_REQUEST \<and> retryable out = True"
    by (simp add: classify_defs mixedStatusFailure_def)
  then obtain out where out: "enhanceError clockHost 0 mixedStatusFailure None None = Inr out"
    and f: "status out = JNum 400" "code out = BAD_REQUEST" "retryable out = True"
    by blast
  have p: "retryPolicy (code out) 400 = False" by (simp add: retryPolicy_def)
  from default_predicate_policy [OF f(1)] p
  have "isRetryable (js_of_enhanced out) = Inr False" by simp
  with out f p show ?thesis by blast
qed

section \<open>Totality and the message\<close>

lemma stringifiable_primitive [simp]:
  "stringifiable JUndefined" "stringifiable JNull" "stringifiable (JBool b)"
  "stringifiable (JNum n)" "stringifiable (JStr s)"
  by (simp_all add: stringifiable_def)

lemma js_ge_returns: "stringifiable v \<Longrightarrow> \<exists>b. js_ge v k = Some b"
  by (simp add: js_ge_def stringifiable_def)

lemma js_lt_returns: "stringifiable v \<Longrightarrow> \<exists>b. js_lt v k = Some b"
  by (simp add: js_lt_def stringifiable_def)

lemma getErrorCode_returns:
  assumes "stringifiable st"
  shows "\<exists>c. getErrorCode st e = Inr c"
proof -
  from js_ge_returns [OF assms] obtain b where "js_ge st 500 = Some b" ..
  then show ?thesis by (simp add: getErrorCode_def Let_def)
qed

lemma isClientErrorStatus_returns:
  assumes "stringifiable st"
  shows "\<exists>b. isClientErrorStatus st = Some b"
proof -
  from js_ge_returns [OF assms] obtain b where "js_ge st 400 = Some b" ..
  moreover from js_lt_returns [OF assms] obtain c where "js_lt st 500 = Some c" ..
  ultimately show ?thesis by (auto simp: isClientErrorStatus_def)
qed

lemma isRetryable_returns:
  assumes "stringifiable (nc (apiErrorStatus e) (axiosResponseStatus e))"
  shows "\<exists>b. isRetryable e = Inr b"
proof -
  let ?st = "nc (apiErrorStatus e) (axiosResponseStatus e)"
  from isClientErrorStatus_returns [OF assms] obtain b where b: "isClientErrorStatus ?st = Some b" ..
  from js_ge_returns [OF assms] obtain c where c: "js_ge ?st 500 = Some c" ..
  show ?thesis
    by (cases b) (auto simp: isRetryable_def Let_def b c)
qed

lemma those_stringifiable:
  "list_all stringifiable vs \<Longrightarrow> \<exists>ss. those (map js_String vs) = Some ss"
  by (induction vs) (auto simp: stringifiable_def)

lemma collectErrors_returns:
  assumes "list_all (\<lambda>kv. case snd kv of JArr vs \<Rightarrow> list_all stringifiable vs
                                | v \<Rightarrow> stringifiable v) kvs"
  shows "\<exists>r. collectErrors kvs acc = Some r"
  using assms
proof (induction kvs arbitrary: acc)
  case Nil
  then show ?case by simp
next
  case (Cons kv kvs)
  obtain k v where kv: "kv = (k, v)" by (cases kv)
  from Cons.prems have rest: "list_all (\<lambda>kv. case snd kv of JArr vs \<Rightarrow> list_all stringifiable vs
                                | v \<Rightarrow> stringifiable v) kvs"
    by simp
  note ih = Cons.IH [OF rest]
  show ?case
  proof (cases v)
    case (JArr vs)
    with Cons.prems kv have "list_all stringifiable vs" by simp
    from those_stringifiable [OF this] obtain ss where "those (map js_String vs) = Some ss" ..
    with JArr kv ih [of "assignField k ss acc"] show ?thesis by simp
  next
    case (JObj fields)
    with Cons.prems kv have "stringifiable v" by simp
    then obtain s where "js_String v = Some s" by (auto simp: stringifiable_def)
    with JObj kv ih [of "assignField k [s] acc"] show ?thesis by simp
  qed (use kv ih in simp_all)
qed

lemma responseData_read:
  "oprop (oprop (if isAxiosError e then e else JUndefined) ''response'') ''data'' = responseData e"
  by (simp add: responseData_def)

lemma extractValidationErrors_returns:
  assumes "entriesStringifiable (getp e ''errors'')"
    and "entriesStringifiable (getp (responseData e) ''errors'')"
  shows "\<exists>es. extractValidationErrors e (if isAxiosError e then e else JUndefined) = Inr es"
proof -
  from collectErrors_returns [of "Object_entries (getp e ''errors'')" "[]"] assms(1)
  obtain r1 where r1: "collectErrors (Object_entries (getp e ''errors'')) [] = Some r1"
    unfolding entriesStringifiable_def by blast
  from collectErrors_returns [of "Object_entries (getp (responseData e) ''errors'')" "[]"] assms(2)
  obtain r2 where r2: "collectErrors (Object_entries (getp (responseData e) ''errors'')) [] = Some r2"
    unfolding entriesStringifiable_def by blast
  show ?thesis
    by (simp add: extractValidationErrors_def responseData_read Let_def r1 r2 nonEmptyResult_def)
qed

lemma contextMethod_typed:
  assumes "(\<exists>c m. ctx = Some c \<and> method c = Some m) \<or> getp e ''isAxiosError'' \<noteq> JBool True \<or>
           nullish (getp (getp e ''config'') ''method'') \<or>
           (\<exists>m. getp (getp e ''config'') ''method'' = JStr m)"
  shows "\<exists>m. contextMethod ctx (if isAxiosError e then e else JUndefined) = Inr m"
proof -
  let ?ax = "if isAxiosError e then e else JUndefined"
  let ?cm = "case ctx of None \<Rightarrow> JUndefined
             | Some c \<Rightarrow> (case method c of None \<Rightarrow> JUndefined | Some s \<Rightarrow> JStr s)"
  let ?v = "nc ?cm (oprop (oprop ?ax ''config'') ''method'')"
  have "nullish ?v \<or> (\<exists>s. ?v = JStr s)"
  proof (cases "\<exists>c m. ctx = Some c \<and> method c = Some m")
    case True
    then obtain c m where "ctx = Some c" "method c = Some m" by blast
    then have "?v = JStr m" by (simp add: nc_def)
    then show ?thesis by blast
  next
    case False
    then have "?cm = JUndefined" by (auto split: option.splits)
    then have v: "?v = getp (getp ?ax ''config'') ''method''" by (simp add: nc_def oprop_getp)
    show ?thesis
    proof (cases "isAxiosError e")
      case True
      with v have "?v = getp (getp e ''config'') ''method''" by simp
      with assms False True show ?thesis by (auto simp: isAxiosError_getp)
    next
      case no: False
      with v show ?thesis by simp
    qed
  qed
  then have "\<exists>m. optToUpperCase ?v = Inr m"
    by (auto simp: optToUpperCase_def)
  then show ?thesis by (simp add: contextMethod_def)
qed

lemma enhanceError_returns:
  assumes "getErrorCode (nc (axiosResponseStatus e) (nc (apiErrorStatus e) (JNum 500))) e = Inr c"
    and "isRetryable e = Inr r"
    and "extractValidationErrors e (if isAxiosError e then e else JUndefined) = Inr es"
    and "contextMethod ctx (if isAxiosError e then e else JUndefined) = Inr m"
  shows "\<exists>out. enhanceError h w e ctx rc = Inr out"
  using assms by (simp add: enhanceError_def Let_def axios_status_read api_status_read)

lemma read_status_stringifiable:
  assumes "getp e ''isAxiosError'' = JBool True \<longrightarrow> stringifiable (getp (getp e ''response'') ''status'')"
  shows "stringifiable (nc (axiosResponseStatus e) (nc (apiErrorStatus e) (JNum 500)))"
    and "stringifiable (nc (apiErrorStatus e) (axiosResponseStatus e))"
  using assms apiErrorStatus_cases [of e]
  by (auto simp: nc_def axiosResponseStatus_getp split: if_splits)

lemma getErrorMessage_plain:
  assumes "getp e ''message'' = JStr m" and "m \<noteq> []"
  shows "getErrorMessage e = m"
proof -
  from assms(1) have "extractPlainMessage e = Some m" by (simp add: extractPlainMessage_getp)
  with assms(2) show ?thesis by (simp add: getErrorMessage_def)
qed

lemma responseBodyMessage_unfold:
  "responseBodyMessage e =
     (if truthy (responseData e) \<and> typeof (responseData e) = T_object then
        (case getp (responseData e) ''message'' of
           JStr m \<Rightarrow> m
         | _ \<Rightarrow> (case getp (responseData e) ''error'' of
                    JStr e \<Rightarrow> e
                  | _ \<Rightarrow> ''An unexpected error occurred''))
      else ''An unexpected error occurred'')"
  by (simp only: responseBodyMessage_def Let_def responseData_def)

lemma responseBodyMessage_generic:
  assumes "\<forall>m. getp (responseData e) ''message'' \<noteq> JStr m"
    and "\<forall>m. getp (responseData e) ''error'' \<noteq> JStr m"
  shows "responseBodyMessage e = ''An unexpected error occurred''"
proof -
  have "(case getp (responseData e) ''error'' of
           JStr e \<Rightarrow> e | _ \<Rightarrow> ''An unexpected error occurred'') = ''An unexpected error occurred''"
    using assms(2) by (cases "getp (responseData e) ''error''") simp_all
  then have "(case getp (responseData e) ''message'' of
           JStr m \<Rightarrow> m
         | _ \<Rightarrow> (case getp (responseData e) ''error'' of
                    JStr e \<Rightarrow> e
                  | _ \<Rightarrow> ''An unexpected error occurred'')) = ''An unexpected error occurred''"
    using assms(1) by (cases "getp (responseData e) ''message''") simp_all
  then show ?thesis by (simp only: responseBodyMessage_unfold if_cancel)
qed

lemma responseBodyMessage_nonempty:
  assumes "getp (responseData e) ''message'' \<noteq> JStr []"
    and "getp (responseData e) ''error'' \<noteq> JStr []"
  shows "responseBodyMessage e \<noteq> []"
proof -
  have a: "(case getp (responseData e) ''error'' of
           JStr e \<Rightarrow> e | _ \<Rightarrow> ''An unexpected error occurred'') \<noteq> []"
    using assms(2) by (cases "getp (responseData e) ''error''") simp_all
  have "(case getp (responseData e) ''message'' of
           JStr m \<Rightarrow> m
         | _ \<Rightarrow> (case getp (responseData e) ''error'' of
                    JStr e \<Rightarrow> e
                  | _ \<Rightarrow> ''An unexpected error occurred'')) \<noteq> []"
    using assms(1) a by (cases "getp (responseData e) ''message''") simp_all
  then show ?thesis by (simp add: responseBodyMessage_unfold)
qed

lemma plain_message_cases:
  "extractPlainMessage e = None \<or> (\<exists>m. extractPlainMessage e = Some m \<and> getp e ''message'' = JStr m)"
  by (cases "extractPlainMessage e") (simp_all add: extractPlainMessage_getp)

lemma getErrorMessage_generic:
  assumes "\<forall>m. getp e ''message'' = JStr m \<longrightarrow> m = []"
    and "\<forall>m. getp (responseData e) ''message'' \<noteq> JStr m"
    and "\<forall>m. getp (responseData e) ''error'' \<noteq> JStr m"
  shows "getErrorMessage e = ''An unexpected error occurred''"
  using assms(1) plain_message_cases [of e] responseBodyMessage_generic [OF assms(2,3)]
  by (auto simp: getErrorMessage_def)

lemma getErrorMessage_nonempty:
  assumes "getp (responseData e) ''message'' \<noteq> JStr []"
    and "getp (responseData e) ''error'' \<noteq> JStr []"
  shows "getErrorMessage e \<noteq> []"
  using responseBodyMessage_nonempty [OF assms]
  by (simp add: getErrorMessage_def split: option.splits)

text \<open>
  The classifier throws a TypeError on an axios error whose request method is not a
  string, on a validation value that cannot be converted to a string, and on a response
  status that cannot be converted to a primitive.
\<close>

theorem enhance_not_total_counterexample:
  "enhanceError clockHost 0
     (JObj [(''isAxiosError'', JBool True), (''config'', JObj [(''method'', JNum 5)])])
     None None = Inl TypeError \<and>
   enhanceError clockHost 0
     (JObj [(''status'', JNum 422), (''message'', JStr ''Validation failed''),
            (''errors'', JObj [(''a'', JObj [(''toString'', JNum 1)])])])
     None None = Inl TypeError \<and>
   enhanceError clockHost 0
     (JObj [(''isAxiosError'', JBool True),
            (''response'', JObj [(''status'', JObj [(''toString'', JNum 1)])])])
     None None = Inl TypeError"
  by (simp add: classify_defs)

text \<open>
  The message of the response body is returned whenever it is a string, also the empty
  one; the plain message is returned only when it is not empty.
\<close>

lemma empty_body_message:
  "\<exists>out. enhanceError clockHost 0
            (JObj [(''isAxiosError'', JBool True),
                   (''response'', JObj [(''data'', JObj [(''message'', JStr [])])])])
            None None = Inr out \<and> message out = []"
  by (simp add: classify_defs)

text \<open>
  Claim C8, as amended. \<^const>\<open>enhanceError\<close> returns an enhanced error for every input
  of the universe, among them the empty object and every input that is not an axios error
  and carries no validation map, provided that: the method (the context's, else the axios
  request configuration's) is a string or absent; the response status of an axios error
  can be converted to a string; and so can the values of the validation maps (the
  \<^verbatim>\<open>errors\<close> of the failure and of the response body). The message of the result is
  the raw failure's plain message when that is a non-empty string, and the fixed generic
  string when there is neither a non-empty plain message nor a string message or error in
  the response body; it is non-empty unless the response body has the empty string as its
  message or error.
\<close>

theorem enhance_returns_with_message:
  assumes method_typed:
      "(\<exists>c m. ctx = Some c \<and> method c = Some m) \<or> getp e ''isAxiosError'' \<noteq> JBool True \<or>
       nullish (getp (getp e ''config'') ''method'') \<or>
       (\<exists>m. getp (getp e ''config'') ''method'' = JStr m)"
    and status_plain:
      "getp e ''isAxiosError'' = JBool True \<longrightarrow>
         stringifiable (getp (getp e ''response'') ''status'')"
    and errors_plain: "entriesStringifiable (getp e ''errors'')"
      "entriesStringifiable (getp (responseData e) ''errors'')"
  shows "\<exists>out. enhanceError h w e ctx rc = Inr out \<and>
           (\<forall>m. getp e ''message'' = JStr m \<and> m \<noteq> [] \<longrightarrow> message out = m) \<and>
           ((\<forall>m. getp e ''message'' = JStr m \<longrightarrow> m = []) \<and>
            (\<forall>m. getp (responseData e) ''message'' \<noteq> JStr m) \<and>
            (\<forall>m. getp (responseData e) ''error'' \<noteq> JStr m) \<longrightarrow>
              message out = ''An unexpected error occurred'') \<and>
           (getp (responseData e) ''message'' \<noteq> JStr [] \<and>
            getp (responseData e) ''error'' \<noteq> JStr [] \<longrightarrow> message out \<noteq> [])"
proof -
  note s = read_status_stringifiable [OF status_plain]
  from getErrorCode_returns [OF s(1)] obtain c where
    c: "getErrorCode (nc (axiosResponseStatus e) (nc (apiErrorStatus e) (JNum 500))) e = Inr c" ..
  from isRetryable_returns [OF s(2)] obtain r where r: "isRetryable e = Inr r" ..
  from extractValidationErrors_returns [OF errors_plain] obtain es where
    es: "extractValidationErrors e (if isAxiosError e then e else JUndefined) = Inr es" ..
  from contextMethod_typed [OF method_typed] obtain m
    where m: "contextMethod ctx (if isAxiosError e then e else JUndefined) = Inr m" ..
  from enhanceError_returns [OF c r es m] obtain out
    where out: "enhanceError h w e ctx rc = Inr out" ..
  note msg = enhanceError_fields(4) [OF out]
  have "\<forall>m. getp e ''message'' = JStr m \<and> m \<noteq> [] \<longrightarrow> message out = m"
    by (simp add: msg getErrorMessage_plain)
  moreover have "(\<forall>m. getp e ''message'' = JStr m \<longrightarrow> m = []) \<and>
            (\<forall>m. getp (responseData e) ''message'' \<noteq> JStr m) \<and>
            (\<forall>m. getp (responseData e) ''error'' \<noteq> JStr m) \<longrightarrow>
              message out = ''An unexpected error occurred''"
    using getErrorMessage_generic [of e] by (simp add: msg)
  moreover have "getp (responseData e) ''message'' \<noteq> JStr [] \<and>
            getp (responseData e) ''error'' \<noteq> JStr [] \<longrightarrow> message out \<noteq> []"
    using getErrorMessage_nonempty [of e] by (simp add: msg)
  ultimately show ?thesis using out by blast
qed

theorem enhance_returns_with_message_witness:
  "(\<exists>out. enhanceError clockHost 0 (JObj []) None None = Inr out \<and>
          message out = ''An unexpected error occurred'') \<and>
   (\<exists>out. enhanceError clockHost 0
            (JObj [(''isAxiosError'', JBool True), (''message'', JStr ''Bad request''),
                   (''config'', JObj [(''url'', JStr ''/api/posts''), (''method'', JStr ''post'')]),
                   (''response'', JObj [(''status'', JNum 400),
                      (''data'', JObj [(''message'', JStr ''Bad request''),
                                       (''errors'', JObj [(''field'', JArr [JStr ''Invalid value''])])])])])
            None None = Inr out \<and>
          message out = ''Bad request'' \<and> message out \<noteq> [])"
proof -
  let ?a = "JObj [(''isAxiosError'', JBool True), (''message'', JStr ''Bad request''),
                   (''config'', JObj [(''url'', JStr ''/api/posts''), (''method'', JStr ''post'')]),
                   (''response'', JObj [(''status'', JNum 400),
                      (''data'', JObj [(''message'', JStr ''Bad request''),
                                       (''errors'', JObj [(''field'', JArr [JStr ''Invalid value''])])])])]"
  have t0: "(\<exists>c m. (None :: ErrorContext option) = Some c \<and> method c = Some m) \<or>
           getp (JObj []) ''isAxiosError'' \<noteq> JBool True \<or>
           nullish (getp (getp (JObj []) ''config'') ''method'') \<or>
           (\<exists>m. getp (getp (JObj []) ''config'') ''method'' = JStr m)"
    by simp
  have s0: "getp (JObj []) ''isAxiosError'' = JBool True \<longrightarrow>
         stringifiable (getp (getp (JObj []) ''response'') ''status'')"
    by simp
  have e0: "entriesStringifiable (getp (JObj []) ''errors'')"
    "entriesStringifiable (getp (responseData (JObj [])) ''errors'')"
    by (simp_all add: entriesStringifiable_def responseData_def isAxiosError_def oprop_def)
  have none: "(\<forall>m. getp (JObj []) ''message'' = JStr m \<longrightarrow> m = []) \<and>
            (\<forall>m. getp (responseData (JObj [])) ''message'' \<noteq> JStr m) \<and>
            (\<forall>m. getp (responseData (JObj [])) ''error'' \<noteq> JStr m)"
    by (simp add: responseData_def isAxiosError_def oprop_def)
  from enhance_returns_with_message [OF t0 s0 e0, of clockHost 0 None] none
  have w0: "\<exists>out. enhanceError clockHost 0 (JObj []) None None = Inr out \<and>
          message out = ''An unexpected error occurred''"
    by blast
  have ta: "(\<exists>c m. (None :: ErrorContext option) = Some c \<and> method c = Some m) \<or>
           getp ?a ''isAxiosError'' \<noteq> JBool True \<or>
           nullish (getp (getp ?a ''config'') ''method'') \<or>
           (\<exists>m. getp (getp ?a ''config'') ''method'' = JStr m)"
    by simp
  have sa: "getp ?a ''isAxiosError'' = JBool True \<longrightarrow>
         stringifiable (getp (getp ?a ''response'') ''status'')"
    by simp
  have ea: "entriesStringifiable (getp ?a ''errors'')"
    "entriesStringifiable (getp (responseData ?a) ''errors'')"
    by (simp_all add: entriesStringifiable_def responseData_def isAxiosError_def oprop_def)
  have ma: "getp ?a ''message'' = JStr ''Bad request'' \<and> ''Bad request'' \<noteq> []" by simp
  from enhance_returns_with_message [OF ta sa ea, of clockHost 0 None] ma
  have wa: "\<exists>out. enhanceError clockHost 0 ?a None None = Inr out \<and>
          message out = ''Bad request'' \<and> message out \<noteq> []"
    by fastforce
  from w0 wa show ?thesis by (rule conjI)
qed

section \<open>Validation errors\<close>

lemma update_fresh: "k \<notin> fst ` set al \<Longrightarrow> AList.update k v al = al @ [(k, v)]"
  by (induction al) auto

lemma assignField_fresh:
  "k \<noteq> ''__proto__'' \<Longrightarrow> k \<notin> fst ` set acc \<Longrightarrow> assignField k v acc = acc @ [(k, v)]"
  by (simp add: assignField_def update_fresh)

lemma collectErrors_step:
  "collectErrors ((k, v) # rest) result =
     (if nullish v then collectErrors rest result
      else (case normalizeValue v of
              None \<Rightarrow> None
            | Some vs \<Rightarrow> collectErrors rest (assignField k vs result)))"
  by (cases v) (simp_all add: normalizeValue_def split: option.splits)

lemma collectErrors_normalize:
  assumes "distinct (map fst kvs)" and "fst ` set kvs \<inter> fst ` set acc = {}"
    and "''__proto__'' \<notin> fst ` set kvs"
  shows "collectErrors kvs acc = map_option ((@) acc) (normalizeEntries kvs)"
  using assms
proof (induction kvs arbitrary: acc)
  case Nil
  then show ?case by simp
next
  case (Cons kv kvs)
  obtain k v where kv: "kv = (k, v)" by (cases kv)
  from Cons.prems kv have fresh: "k \<notin> fst ` set acc" and d: "distinct (map fst kvs)"
    and knot: "k \<notin> fst ` set kvs" and disj: "fst ` set kvs \<inter> fst ` set acc = {}"
    and kp: "k \<noteq> ''__proto__''" and np: "''__proto__'' \<notin> fst ` set kvs"
    by auto
  show ?case
  proof (cases "nullish v")
    case True
    with Cons.IH [OF d disj np] kv show ?thesis
      by (simp only: collectErrors_step normalizeEntries.simps if_True)
  next
    case False
    show ?thesis
    proof (cases "normalizeValue v")
      case None
      with False kv show ?thesis
        by (simp only: collectErrors_step normalizeEntries.simps if_False option.case option.map)
    next
      case (Some vs)
      have "fst ` set kvs \<inter> fst ` set (acc @ [(k, vs)]) = {}"
        using disj knot by auto
      from Cons.IH [OF d this np]
      have "collectErrors kvs (acc @ [(k, vs)]) =
              map_option ((@) acc) (map_option ((#) (k, vs)) (normalizeEntries kvs))"
        by (cases "normalizeEntries kvs") simp_all
      moreover have "assignField k vs acc = acc @ [(k, vs)]"
        using kp fresh by (rule assignField_fresh)
      ultimately show ?thesis using Some False kv
        by (simp only: collectErrors_step normalizeEntries.simps if_False option.case)
    qed
  qed
qed

lemma collectErrors_entries:
  assumes "distinct (map fst kvs)" and "''__proto__'' \<notin> fst ` set kvs"
  shows "collectErrors kvs [] = normalizeEntries kvs"
proof -
  from collectErrors_normalize [OF assms(1) _ assms(2), of "[]"]
  have "collectErrors kvs [] = map_option ((@) []) (normalizeEntries kvs)" by simp
  then show ?thesis by (cases "normalizeEntries kvs") simp_all
qed

lemma normalizeEntries_keys:
  "normalizeEntries kvs = Some ns \<Longrightarrow>
     map fst ns = map fst (filter (\<lambda>kv. \<not> nullish (snd kv)) kvs)"
proof (induction kvs arbitrary: ns)
  case Nil
  then show ?case by simp
next
  case (Cons kv kvs)
  obtain k v where kv: "kv = (k, v)" by (cases kv)
  show ?case
  proof (cases "nullish v")
    case True
    with Cons kv show ?thesis by simp
  next
    case False
    with Cons.prems kv obtain vs rest where "normalizeValue v = Some vs"
      "normalizeEntries kvs = Some rest" "ns = (k, vs) # rest"
      by (auto split: option.splits)
    with Cons.IH [of rest] False kv show ?thesis by simp
  qed
qed

lemma extract_from_error:
  assumes "isApiErrorLike e" and "getp e ''errors'' = JObj kvs"
  shows "extractValidationErrors e ax = nonEmptyResult (collectErrors kvs [])"
  using assms by (simp add: extractValidationErrors_def)

lemma extract_from_response:
  assumes "\<not> (isApiErrorLike e \<and> truthy (getp e ''errors'') \<and> typeof (getp e ''errors'') = T_object)"
    and "isAxiosError e" and "getp (responseData e) ''errors'' = JObj kvs"
  shows "extractValidationErrors e (if isAxiosError e then e else JUndefined)
         = nonEmptyResult (collectErrors kvs [])"
proof -
  from assms(3) have "getp (responseData e) ''errors'' \<noteq> JUndefined" by simp
  from getp_defined [OF this] obtain dkvs where
    d: "responseData e = JObj dkvs" and k: "''errors'' \<in> fst ` set dkvs" by blast
  have r: "oprop (oprop (if isAxiosError e then e else JUndefined) ''response'') ''data'' = JObj dkvs"
    using d by (simp only: responseData_def)
  show ?thesis
    using assms(1) assms(3) k d
    by (auto simp: extractValidationErrors_def r Let_def)
qed

lemma responseData_getp:
  "getp e ''isAxiosError'' = JBool True \<Longrightarrow>
     responseData e = getp (getp e ''response'') ''data''"
  by (simp add: responseData_def oprop_getp isAxiosError_getp)

text \<open>
  A field whose value is the empty array is kept, with the empty list: only null and
  undefined values are skipped. A field named \<^verbatim>\<open>__proto__\<close> is dropped whatever its
  value. A validation map on a failure that is neither ApiError-like nor an axios error
  is not read.
\<close>

theorem validation_map_counterexample:
  "(\<exists>out. enhanceError clockHost 0
            (JObj [(''status'', JNum 422), (''message'', JStr ''Validation failed''),
                   (''errors'', JObj [(''a'', JArr [])])]) None None = Inr out \<and>
          errors out = Some [(''a'', [])]) \<and>
   (\<exists>out. enhanceError clockHost 0 protoFieldFailure None None = Inr out \<and>
          errors out = None) \<and>
   (\<exists>out. enhanceError clockHost 0
            (JObj [(''errors'', JObj [(''a'', JArr [JStr ''x''])])]) None None = Inr out \<and>
          errors out = None)"
  by (simp add: classify_defs protoFieldFailure_def)

text \<open>
  Claim C7, as amended. Take a raw failure that carries a validation map where the
  classifier reads it: as the \<^verbatim>\<open>errors\<close> of a failure with a numeric status and a
  string message, or else as the \<^verbatim>\<open>errors\<close> of the response body of an axios error;
  let the map be a value of the universe with no field named \<^verbatim>\<open>__proto__\<close>. If
  \<^const>\<open>enhanceError\<close> returns, the validation errors of the result list the fields in
  order, each value normalised to a list of strings: an array to its stringified elements,
  any other value to the one-element list of its string. Exactly the fields whose value is
  null or undefined are left out (an empty array stays, as the empty list), and the whole
  map is left out when no field remains. The map \<open>{a: ["x"], b: "y"}\<close> yields
  \<open>{a: ["x"], b: ["y"]}\<close>.
\<close>

theorem validation_errors_normalized:
  assumes carried:
      "((\<exists>n. getp e ''status'' = JNum n) \<and> (\<exists>m. getp e ''message'' = JStr m) \<and>
        getp e ''errors'' = JObj kvs) \<or>
       (\<not> ((\<exists>n. getp e ''status'' = JNum n) \<and> (\<exists>m. getp e ''message'' = JStr m) \<and>
           truthy (getp e ''errors'') \<and> typeof (getp e ''errors'') = T_object) \<and>
        getp e ''isAxiosError'' = JBool True \<and>
        getp (getp (getp e ''response'') ''data'') ''errors'' = JObj kvs)"
    and universe: "inUniverse (JObj kvs)"
    and no_proto: "''__proto__'' \<notin> fst ` set kvs"
    and returned: "enhanceError h w e ctx rc = Inr out"
  shows "\<exists>ns. normalizeEntries kvs = Some ns \<and>
           errors out = (if ns = [] then None else Some ns) \<and>
           map fst ns = map fst (filter (\<lambda>kv. \<not> nullish (snd kv)) kvs)"
proof -
  from carried have "(isApiErrorLike e \<and> getp e ''errors'' = JObj kvs) \<or>
       (\<not> (isApiErrorLike e \<and> truthy (getp e ''errors'') \<and> typeof (getp e ''errors'') = T_object) \<and>
        isAxiosError e \<and> getp (responseData e) ''errors'' = JObj kvs)"
    by (auto simp: isApiErrorLike_getp isAxiosError_getp responseData_getp)
  then have "extractValidationErrors e (if isAxiosError e then e else JUndefined)
        = nonEmptyResult (collectErrors kvs [])"
    using extract_from_error extract_from_response by blast
  moreover from universe have "distinct (map fst kvs)" by simp
  ultimately have "nonEmptyResult (normalizeEntries kvs) = Inr (errors out)"
    using enhanceError_fields(5) [OF returned] by (simp add: collectErrors_entries [OF _ no_proto])
  then obtain ns where ns: "normalizeEntries kvs = Some ns"
    and e: "errors out = (if ns = [] then None else Some ns)"
    by (cases "normalizeEntries kvs") (auto simp: nonEmptyResult_def split: if_splits)
  from normalizeEntries_keys [OF ns] ns e show ?thesis by blast
qed

theorem validation_errors_normalized_witness:
  "(\<exists>out. enhanceError clockHost 0
            (JObj [(''status'', JNum 422), (''message'', JStr ''Validation failed''),
                   (''errors'', JObj [(''a'', JArr [JStr ''x'']), (''b'', JStr ''y'')])])
            None None = Inr out \<and>
          errors out = Some [(''a'', [''x'']), (''b'', [''y''])]) \<and>
   (\<exists>out. enhanceError clockHost 0
            (JObj [(''isAxiosError'', JBool True), (''message'', JStr ''Bad request''),
                   (''response'', JObj [(''status'', JNum 400),
                      (''data'', JObj [(''errors'',
                         JObj [(''field'', JArr [JStr ''Invalid value'']), (''skipped'', JNull)])])])])
            None None = Inr out \<and>
          errors out = Some [(''field'', [''Invalid value''])])"
proof -
  let ?kvs = "[(''a'', JArr [JStr ''x'']), (''b'', JStr ''y'')]"
  let ?e = "JObj [(''status'', JNum 422), (''message'', JStr ''Validation failed''),
                   (''errors'', JObj ?kvs)]"
  let ?kvs2 = "[(''field'', JArr [JStr ''Invalid value'']), (''skipped'', JNull)]"
  let ?e2 = "JObj [(''isAxiosError'', JBool True), (''message'', JStr ''Bad request''),
                   (''response'', JObj [(''status'', JNum 400),
                      (''data'', JObj [(''errors'', JObj ?kvs2)])])]"
  have "\<exists>out. enhanceError clockHost 0 ?e None None = Inr out"
    by (simp add: classify_defs)
  then obtain out where out: "enhanceError clockHost 0 ?e None None = Inr out" ..
  have carried: "((\<exists>n. getp ?e ''status'' = JNum n) \<and> (\<exists>m. getp ?e ''message'' = JStr m) \<and>
        getp ?e ''errors'' = JObj ?kvs) \<or>
       (\<not> ((\<exists>n. getp ?e ''status'' = JNum n) \<and> (\<exists>m. getp ?e ''message'' = JStr m) \<and>
           truthy (getp ?e ''errors'') \<and> typeof (getp ?e ''errors'') = T_object) \<and>
        getp ?e ''isAxiosError'' = JBool True \<and>
        getp (getp (getp ?e ''response'') ''data'') ''errors'' = JObj ?kvs)"
    by simp
  have u: "inUniverse (JObj ?kvs)" by simp
  have p: "''__proto__'' \<notin> fst ` set ?kvs" by simp
  have n: "normalizeEntries ?kvs = Some [(''a'', [''x'']), (''b'', [''y''])]"
    by (simp add: normalizeValue_def)
  from validation_errors_normalized [OF carried u p out] n out
  have w1: "\<exists>out. enhanceError clockHost 0 ?e None None = Inr out \<and>
          errors out = Some [(''a'', [''x'']), (''b'', [''y''])]"
    by auto
  have "\<exists>out. enhanceError clockHost 0 ?e2 None None = Inr out"
    by (simp add: classify_defs)
  then obtain out2 where out2: "enhanceError clockHost 0 ?e2 None None = Inr out2" ..
  have carried2: "((\<exists>n. getp ?e2 ''status'' = JNum n) \<and> (\<exists>m. getp ?e2 ''message'' = JStr m) \<and>
        getp ?e2 ''errors'' = JObj ?kvs2) \<or>
       (\<not> ((\<exists>n. getp ?e2 ''status'' = JNum n) \<and> (\<exists>m. getp ?e2 ''message'' = JStr m) \<and>
           truthy (getp ?e2 ''errors'') \<and> typeof (getp ?e2 ''errors'') = T_object) \<and>
        getp ?e2 ''isAxiosError'' = JBool True \<and>
        getp (getp (getp ?e2 ''response'') ''data'') ''errors'' = JObj ?kvs2)"
    by simp
  have u2: "inUniverse (JObj ?kvs2)" by simp
  have p2: "''__proto__'' \<notin> fst ` set ?kvs2" by simp
  have n2: "normalizeEntries ?kvs2 = Some [(''field'', [''Invalid value''])]"
    by (simp add: normalizeValue_def)
  from validation_errors_normalized [OF carried2 u2 p2 out2] n2 out2
  have w2: "\<exists>out. enhanceError clockHost 0 ?e2 None None = Inr out \<and>
          errors out = Some [(''field'', [''Invalid value''])]"
    by auto
  from w1 w2 show ?thesis by (rule conjI)
qed

section \<open>Rounding\<close>

text \<open>
  Rounding stays between the neighbouring doubles: a representable number below \<open>x\<close> is
  not above the rounded \<open>x\<close>, and one above \<open>x\<close> is not below it. So rounding is
  monotone, exact on the doubles, and overflows from \<open>2^1024\<close> on.
\<close>

lemma rhe_lower: "\<lfloor>q\<rfloor> \<le> roundHalfEven q"
  by (simp add: roundHalfEven_def Let_def)

lemma rhe_upper: "roundHalfEven q \<le> \<lceil>q\<rceil>"
  unfolding roundHalfEven_def Let_def
  by (auto simp: le_ceiling_iff) linarith+

lemma ulp_pos: "0 < ulp x"
  by (simp add: ulp_def zero_less_power_int)

lemma binade_ge: "- 1022 \<le> binade x"
  by (simp add: binade_def)

lemma binade_powi:
  assumes "0 < x" and "- 1022 < binade x"
  shows "2 powi binade x \<le> x"
proof -
  from assms have b: "binade x = \<lfloor>log 2 x\<rfloor>" by (auto simp: binade_def max_def)
  have "2 powr real_of_int \<lfloor>log 2 x\<rfloor> \<le> x"
    using floor_log_eq_powr_iff [of x 2 "\<lfloor>log 2 x\<rfloor>"] assms(1) by simp
  then show ?thesis by (simp add: b powr_real_of_int')
qed

lemma on_grid:
  assumes "binade x - 52 \<le> e"
  shows "\<exists>j::int. of_int m * 2 powi e = of_int j * ulp x"
proof -
  let ?c = "binade x - 52"
  have "(2::real) powi e = 2 powi ((e - ?c) + ?c)" by simp
  also have "\<dots> = 2 powi (e - ?c) * 2 powi ?c" by (rule power_int_add) simp
  also have "2 powi (e - ?c) = (2::real) powi int (nat (e - ?c))" using assms by simp
  also have "\<dots> = 2 ^ nat (e - ?c)" by (rule power_int_of_nat)
  finally have "of_int m * 2 powi e = of_int (m * 2 ^ nat (e - ?c)) * ulp x"
    by (simp add: ulp_def)
  then show ?thesis ..
qed

lemma below_power:
  assumes "\<bar>m\<bar> < 2 ^ 53" and "e < c - 52"
  shows "real_of_int m * 2 powi e < 2 powi c"
proof -
  from assms(1) have "m < 2 ^ 53" by simp
  then have "real_of_int m < real_of_int (2 ^ 53)" by (simp only: of_int_less_iff)
  then have "real_of_int m < 2 ^ 53" by simp
  then have "of_int m * 2 powi e < 2 ^ 53 * (2::real) powi e"
    by (simp add: zero_less_power_int)
  also have "(2::real) powi e \<le> 2 powi (c - 53)"
    using assms(2) by (intro power_int_increasing) auto
  also have "2 ^ 53 * (2::real) powi (c - 53) = 2 powi 53 * 2 powi (c - 53)"
    by simp
  also have "\<dots> = 2 powi (53 + (c - 53))" by (rule power_int_add [symmetric]) simp
  finally show ?thesis by simp
qed

lemma below_binade:
  assumes "\<bar>m\<bar> < 2 ^ 53" and "e < binade x - 52"
  shows "real_of_int m * 2 powi e < 2 powi binade x"
  using assms by (rule below_power)

lemma binade_on_grid: "2 powi binade x = of_int (2 ^ 52) * ulp x"
proof -
  have "(2::real) powi binade x = 2 powi (52 + (binade x - 52))" by simp
  also have "\<dots> = 2 powi 52 * 2 powi (binade x - 52)" by (rule power_int_add) simp
  finally show ?thesis by (simp add: ulp_def)
qed

lemma grid_le_round:
  assumes "of_int j * ulp x \<le> x"
  shows "of_int j * ulp x \<le> roundValue x"
proof -
  from assms have "of_int j \<le> x / ulp x" by (simp add: pos_le_divide_eq ulp_pos)
  then have "j \<le> \<lfloor>x / ulp x\<rfloor>" by (simp add: le_floor_iff)
  also have "\<dots> \<le> roundHalfEven (x / ulp x)" by (rule rhe_lower)
  finally have "real_of_int j \<le> of_int (roundHalfEven (x / ulp x))" by simp
  then show ?thesis unfolding roundValue_def
    by (intro mult_right_mono) (simp_all add: less_imp_le [OF ulp_pos])
qed

lemma round_le_grid:
  assumes "x \<le> of_int j * ulp x"
  shows "roundValue x \<le> of_int j * ulp x"
proof -
  from assms have "x / ulp x \<le> of_int j" by (simp add: pos_divide_le_eq ulp_pos)
  then have "\<lceil>x / ulp x\<rceil> \<le> j" by (simp add: ceiling_le_iff)
  with rhe_upper [of "x / ulp x"] have "roundHalfEven (x / ulp x) \<le> j" by linarith
  then have "real_of_int (roundHalfEven (x / ulp x)) \<le> of_int j" by simp
  then show ?thesis unfolding roundValue_def
    by (intro mult_right_mono) (simp_all add: less_imp_le [OF ulp_pos])
qed

lemma binade_le_round:
  assumes "0 < x" and "- 1022 < binade x"
  shows "2 powi binade x \<le> roundValue x"
  using grid_le_round [of "2 ^ 52" x] binade_powi [OF assms]
  by (simp only: binade_on_grid)

lemma round_lower:
  assumes "0 < x" and "representable z" and "z \<le> x"
  shows "z \<le> roundValue x"
proof -
  from assms(2) obtain m e where z: "z = of_int m * 2 powi e" and m: "\<bar>m\<bar> < 2 ^ 53"
    and e: "- 1074 \<le> e"
    unfolding representable_def by blast
  show ?thesis
  proof (cases "binade x - 52 \<le> e")
    case True
    from on_grid [OF True, of m] obtain j where j: "of_int m * 2 powi e = of_int j * ulp x" ..
    with assms(3) z show ?thesis using grid_le_round [of j x] by simp
  next
    case False
    then have lt: "e < binade x - 52" by simp
    with e have "- 1022 < binade x" by linarith
    from binade_le_round [OF assms(1) this] below_binade [OF m lt] z
    show ?thesis by linarith
  qed
qed

lemma round_upper:
  assumes "0 < x" and "representable z" and "x \<le> z"
  shows "roundValue x \<le> z"
proof -
  from assms(2) obtain m e where z: "z = of_int m * 2 powi e" and m: "\<bar>m\<bar> < 2 ^ 53"
    and e: "- 1074 \<le> e"
    unfolding representable_def by blast
  show ?thesis
  proof (cases "binade x - 52 \<le> e")
    case True
    from on_grid [OF True, of m] obtain j where j: "of_int m * 2 powi e = of_int j * ulp x" ..
    with assms(3) z show ?thesis using round_le_grid [of x j] by simp
  next
    case False
    then have lt: "e < binade x - 52" by simp
    with e have "- 1022 < binade x" by linarith
    from binade_powi [OF assms(1) this] below_binade [OF m lt] z assms(3)
    show ?thesis by linarith
  qed
qed

lemma round_representable:
  assumes "0 < x" and "representable x"
  shows "roundDouble x = Fin x"
proof -
  from round_lower [OF assms(1,2)] round_upper [OF assms(1,2)] have r: "roundValue x = x" by simp
  from assms(2) have "\<bar>x\<bar> < 2 ^ 1024" by (simp add: representable_def)
  with assms(1) r show ?thesis by (simp add: roundDouble_def)
qed

lemma round_zero: "roundDouble 0 = Fin 0"
  by (simp add: roundDouble_def)

lemma representable_zero: "representable 0"
  unfolding representable_def by (intro conjI exI [of _ 0]) simp_all

lemma representable_int:
  assumes "\<bar>k\<bar> < 2 ^ 53"
  shows "representable (of_int k)"
proof -
  from assms have "\<bar>real_of_int k\<bar> < real_of_int (2 ^ 53)"
    by (simp only: of_int_abs [symmetric] of_int_less_iff)
  also have "real_of_int (2 ^ 53) < 2 ^ 1024" by simp
  finally have "\<bar>real_of_int k\<bar> < 2 ^ 1024" .
  moreover have "real_of_int k = of_int k * 2 powi 0 \<and> \<bar>k\<bar> < 2 ^ 53 \<and> - 1074 \<le> (0::int)"
    using assms by simp
  ultimately show ?thesis unfolding representable_def by blast
qed

lemma representable_half: "representable (1 / 2)"
proof -
  have "(1 / 2 :: real) = of_int 1 * 2 powi (- 1) \<and> \<bar>1::int\<bar> < 2 ^ 53 \<and> - 1074 \<le> (- 1 :: int)"
    by (simp add: power_int_minus)
  moreover have "\<bar>1 / 2 :: real\<bar> < 2 ^ 1024" by simp
  ultimately show ?thesis unfolding representable_def by blast
qed

lemma representable_one: "representable 1"
  using representable_int [of 1] by simp

lemma representable_scale:
  assumes "representable b" and "\<bar>b * 2 ^ n\<bar> < 2 ^ 1024"
  shows "representable (b * 2 ^ n)"
proof -
  from assms(1) obtain m e where b: "b = of_int m * 2 powi e" and m: "\<bar>m\<bar> < 2 ^ 53"
    and e: "- 1074 \<le> e"
    unfolding representable_def by blast
  have "(2::real) powi (e + int n) = 2 powi e * 2 powi int n" by (rule power_int_add) simp
  then have "b * 2 ^ n = of_int m * 2 powi (e + int n)" by (simp add: b power_int_of_nat)
  moreover have "- 1074 \<le> e + int n" using e by simp
  ultimately show ?thesis using m assms(2) unfolding representable_def by blast
qed

lemma representable_halve:
  assumes "representable x" and "2 powi (- 1021) \<le> x"
  shows "representable (x / 2)"
proof -
  from assms(1) obtain m e where x: "x = of_int m * 2 powi e" and m: "\<bar>m\<bar> < 2 ^ 53"
    and e: "- 1074 \<le> e" and fin: "\<bar>x\<bar> < 2 ^ 1024"
    unfolding representable_def by blast
  have "e \<noteq> - 1074"
  proof
    assume "e = - 1074"
    then have "e < (- 1021) - 52" by simp
    from below_power [OF m this] x assms(2) show False by simp
  qed
  with e have e1: "- 1074 \<le> e - 1" by simp
  have "(2::real) powi (e - 1) = 2 powi e / 2 powi 1" by (rule power_int_diff) simp
  then have "x / 2 = of_int m * 2 powi (e - 1)" by (simp add: x)
  moreover have "\<bar>x / 2\<bar> < 2 ^ 1024" using fin by simp
  ultimately show ?thesis using m e1 unfolding representable_def by blast
qed

lemma round_between:
  assumes "0 \<le> x" and "representable lo" and "lo \<le> x" and "representable hi" and "x \<le> hi"
  shows "\<exists>y. roundDouble x = Fin y \<and> lo \<le> y \<and> y \<le> hi"
proof (cases "x = 0")
  case True
  with assms(3,5) show ?thesis by (simp add: roundDouble_def)
next
  case False
  with assms(1) have pos: "0 < x" by simp
  note lo = round_lower [OF pos assms(2,3)]
  note hi = round_upper [OF pos assms(4,5)]
  from assms(2) have "- (2 ^ 1024) < lo" by (simp add: representable_def abs_less_iff)
  with lo have a: "\<not> roundValue x \<le> - (2 ^ 1024)" by linarith
  from assms(4) have "hi < 2 ^ 1024" by (simp add: representable_def abs_less_iff)
  with hi have b: "\<not> 2 ^ 1024 \<le> roundValue x" by linarith
  from a b False have "roundDouble x = Fin (roundValue x)" by (simp add: roundDouble_def)
  with lo hi show ?thesis by blast
qed

lemma binade_large:
  assumes "2 ^ 1024 \<le> x"
  shows "1024 \<le> binade x"
proof -
  have pos: "0 < x" using assms by (rule less_le_trans [rotated]) simp
  have "(2::real) powr 1024 = 2 ^ 1024" by (simp add: powr_numeral)
  with assms have "(2::real) powr 1024 \<le> x" by simp
  then have "1024 \<le> log 2 x" using pos by (simp add: le_log_iff)
  then have "1024 \<le> \<lfloor>log 2 x\<rfloor>" by (simp add: le_floor_iff)
  with pos show ?thesis by (simp add: binade_def)
qed

lemma round_overflow:
  assumes "2 ^ 1024 \<le> x"
  shows "roundDouble x = PosInf"
proof -
  have pos: "0 < x" using assms by (rule less_le_trans [rotated]) simp
  from binade_large [OF assms] have b: "1024 \<le> binade x" .
  then have "(2::real) powi 1024 \<le> 2 powi binade x" by (intro power_int_increasing) auto
  also have "\<dots> \<le> roundValue x" using pos b by (intro binade_le_round) auto
  finally have "2 ^ 1024 \<le> roundValue x" by simp
  with pos show ?thesis by (simp add: roundDouble_def)
qed

lemma representable_power:
  assumes "n < 1024"
  shows "representable (2 ^ n)"
proof -
  from assms have "(2::real) ^ n < 2 ^ 1024" by (rule power_strict_increasing) simp
  moreover have "0 \<le> (2::real) ^ n" by (rule zero_le_power) simp
  ultimately have lt: "\<bar>(2::real) ^ n\<bar> < 2 ^ 1024" by (simp only: abs_of_nonneg)
  have "(2::real) ^ n = of_int 1 * 2 powi int n" by (simp add: power_int_of_nat)
  moreover have "\<bar>1::int\<bar> < 2 ^ 53" by simp
  moreover have "- 1074 \<le> int n" by simp
  ultimately have "\<exists>m e. (2::real) ^ n = of_int m * 2 powi e \<and> \<bar>m\<bar> < 2 ^ 53 \<and> - 1074 \<le> e"
    by blast
  with lt show ?thesis unfolding representable_def by (rule conjI [rotated])
qed

lemma dpow2_cases: "dpow2 n = (if n < 1024 then Fin (2 ^ n) else PosInf)"
proof (cases "n < 1024")
  case True
  have "roundDouble (2 ^ n) = Fin (2 ^ n)"
    by (rule round_representable [OF _ representable_power [OF True]]) simp
  with True show ?thesis by (simp only: dpow2_def if_True)
next
  case False
  then have "1024 \<le> n" by simp
  then have "(2::real) ^ 1024 \<le> 2 ^ n" by (rule power_increasing) simp
  then have "roundDouble (2 ^ n) = PosInf" by (rule round_overflow)
  with False show ?thesis by (simp only: dpow2_def if_False)
qed

lemma jitter_factor:
  assumes "0 \<le> r" and "r \<le> 1"
  shows "\<exists>f. dadd (Fin (1 / 2)) (dmul (Fin r) (Fin (1 / 2))) = Fin f \<and> 1 / 2 \<le> f \<and> f \<le> 1"
proof -
  have "\<exists>y. roundDouble (r * (1 / 2)) = Fin y \<and> 0 \<le> y \<and> y \<le> 1 / 2"
    using assms by (intro round_between representable_zero representable_half) auto
  then obtain y where y: "roundDouble (r * (1 / 2)) = Fin y" "0 \<le> y" "y \<le> 1 / 2" by blast
  have "\<exists>f. roundDouble (1 / 2 + y) = Fin f \<and> 1 / 2 \<le> f \<and> f \<le> 1"
    using y(2,3) by (intro round_between representable_half representable_one) auto
  with y(1) show ?thesis by simp
qed

lemma exponential_delay:
  assumes "representable b" and "0 < b"
  shows "dmul (Fin b) (dpow2 n) = (if n < 1024 \<and> b * 2 ^ n < 2 ^ 1024 then Fin (b * 2 ^ n) else PosInf)"
proof (cases "n < 1024")
  case True
  then have p: "dpow2 n = Fin (2 ^ n)" by (simp add: dpow2_cases)
  have pos: "0 < b * 2 ^ n" using assms(2) by simp
  show ?thesis
  proof (cases "b * 2 ^ n < 2 ^ 1024")
    case lt: True
    with pos have "\<bar>b * 2 ^ n\<bar> < 2 ^ 1024" by simp
    from representable_scale [OF assms(1) this] pos have "roundDouble (b * 2 ^ n) = Fin (b * 2 ^ n)"
      by (intro round_representable)
    with lt p True show ?thesis by simp
  next
    case False
    then have "roundDouble (b * 2 ^ n) = PosInf" by (intro round_overflow) simp
    with False p show ?thesis by simp
  qed
next
  case False
  then have p: "dpow2 n = PosInf" by (simp add: dpow2_cases)
  with False assms(2) show ?thesis by simp
qed

lemma round_int:
  assumes "0 \<le> k" and "k < 2 ^ 53"
  shows "roundDouble (of_int k) = Fin (of_int k)"
proof (cases "k = 0")
  case True
  then show ?thesis by (simp add: round_zero)
next
  case False
  with assms have "\<bar>k\<bar> < 2 ^ 53" "0 < real_of_int k" by simp_all
  then show ?thesis using representable_int [of k] by (intro round_representable)
qed

lemma round_numeral:
  assumes "(numeral k :: int) < 2 ^ 53"
  shows "roundDouble (numeral k) = Fin (numeral k)"
  using round_int [of "numeral k"] assms by simp

lemma round_half: "roundDouble (1 / 2) = Fin (1 / 2)"
  by (rule round_representable [OF _ representable_half]) simp

lemma round_one: "roundDouble 1 = Fin 1"
  using round_int [of 1] by simp

lemma floor_log_less:
  assumes "0 < x" and "x < 2 powi c"
  shows "\<lfloor>log 2 x\<rfloor> < c"
proof -
  have "x < 2 powr real_of_int c" using assms(2) by (simp add: powr_real_of_int')
  then have "log 2 x < real_of_int c" using assms(1) by (simp add: log_less_iff)
  then show ?thesis by (simp add: floor_less_iff)
qed

lemma floor_log_ge:
  assumes "0 < x" and "2 powi c \<le> x"
  shows "c \<le> \<lfloor>log 2 x\<rfloor>"
proof -
  have "2 powr real_of_int c \<le> x" using assms(2) by (simp add: powr_real_of_int')
  then have "real_of_int c \<le> log 2 x" using assms(1) by (simp add: le_log_iff)
  then show ?thesis by (simp add: le_floor_iff)
qed

lemma rhe_small:
  assumes "0 \<le> q" and "q \<le> 1 / 2"
  shows "roundHalfEven q = 0"
proof -
  from assms have "\<lfloor>q\<rfloor> = 0" by (simp add: floor_eq_iff)
  with assms show ?thesis by (simp add: roundHalfEven_def)
qed

lemma MIN_VALUE_pos: "0 < MIN_VALUE"
  by (simp only: MIN_VALUE_def) (rule zero_less_power_int, simp)

lemma representable_MIN_VALUE: "representable MIN_VALUE"
proof -
  have "MIN_VALUE = of_int 1 * 2 powi (- 1074)" by (simp only: MIN_VALUE_def of_int_1 mult_1)
  moreover have "\<bar>1::int\<bar> < 2 ^ 53" "- 1074 \<le> (- 1074 :: int)" by simp_all
  ultimately have "\<exists>m e. MIN_VALUE = of_int m * 2 powi e \<and> \<bar>m\<bar> < 2 ^ 53 \<and> - 1074 \<le> e"
    by blast
  moreover have "\<bar>MIN_VALUE\<bar> < 2 ^ 1024"
  proof -
    have "(2::real) powi (- 1074) \<le> 2 powi 0" by (rule power_int_increasing) simp_all
    then have "MIN_VALUE \<le> 1" by (simp only: MIN_VALUE_def power_int_0_right)
    moreover have "(1::real) < 2 ^ 1024" by simp
    ultimately show ?thesis using MIN_VALUE_pos by simp
  qed
  ultimately show ?thesis unfolding representable_def by (rule conjI)
qed

lemma round_underflow:
  assumes "0 < x" and "x \<le> MIN_VALUE / 2"
  shows "roundDouble x = Fin 0"
proof -
  have "(2::real) powi (- 1074) < 2 powi (- 1021)" by (rule power_int_strict_increasing) simp_all
  then have "MIN_VALUE < 2 powi (- 1021)" by (simp only: MIN_VALUE_def)
  with assms(2) MIN_VALUE_pos have "x < 2 powi (- 1021)" by linarith
  from floor_log_less [OF assms(1) this] assms(1) have b: "binade x = - 1022"
    by (simp add: binade_def)
  have "(- 1022 - 52 :: int) = - 1074" by simp
  then have u: "ulp x = MIN_VALUE" by (simp only: ulp_def b MIN_VALUE_def)
  have "x / MIN_VALUE \<le> 1 / 2" using assms(2) MIN_VALUE_pos by (simp add: field_simps)
  moreover have "0 \<le> x / MIN_VALUE" using assms(1) MIN_VALUE_pos by simp
  ultimately have "roundHalfEven (x / MIN_VALUE) = 0" by (intro rhe_small)
  then have "roundValue x = 0" by (simp add: roundValue_def u)
  with assms(1) show ?thesis by (simp add: roundDouble_def)
qed

lemma powi_minus_53: "(2::real) powi (- 53) = 1 / 9007199254740992"
  by (simp add: power_int_minus)

lemma powi_minus_54: "(2::real) powi (- 54) = 1 / 18014398509481984"
  by (simp add: power_int_minus)

lemma largest_draw_halved: "(1 - (2::real) powi (- 53)) * (1 / 2) = of_int 9007199254740991 * 2 powi (- 54)"
  by (simp add: powi_minus_53 powi_minus_54)

lemma largest_draw_halved_representable: "representable ((1 - (2::real) powi (- 53)) * (1 / 2))"
proof -
  have "\<bar>9007199254740991::int\<bar> < 2 ^ 53" "- 1074 \<le> (- 54 :: int)" by simp_all
  with largest_draw_halved have "\<exists>m e. (1 - (2::real) powi (- 53)) * (1 / 2) = of_int m * 2 powi e \<and> \<bar>m\<bar> < 2 ^ 53 \<and> - 1074 \<le> e"
    by blast
  moreover have "\<bar>(1 - (2::real) powi (- 53)) * (1 / 2)\<bar> < 2 ^ 1024" by (simp add: powi_minus_53)
  ultimately show ?thesis unfolding representable_def by (rule conjI)
qed

lemma round_largest_draw_halved: "roundDouble ((1 - (2::real) powi (- 53)) * (1 / 2)) = Fin ((1 - 2 powi (- 53)) * (1 / 2))"
  by (rule round_representable [OF _ largest_draw_halved_representable]) (simp add: powi_minus_53)

lemma largest_draw_sum: "1 / 2 + (1 - (2::real) powi (- 53)) * (1 / 2) = 1 - 2 powi (- 54)"
  by (simp add: powi_minus_53 powi_minus_54)

lemma below_one_pos: "0 < 1 - (2::real) powi (- 54)"
  by (simp add: powi_minus_54)

lemma round_below_one: "roundDouble (1 - (2::real) powi (- 54)) = Fin 1"
proof -
  define x where "x = 1 - (2::real) powi (- 54)"
  have xv: "x = 18014398509481983 / 18014398509481984" unfolding x_def by (simp add: powi_minus_54)
  have pos: "0 < x" unfolding xv by simp
  have "(2::real) powi (- 1) \<le> x" unfolding xv by simp
  from floor_log_ge [OF pos this] have "- 1 \<le> \<lfloor>log 2 x\<rfloor>" .
  moreover have "x < 2 powi 0" unfolding xv by simp
  from floor_log_less [OF pos this] have "\<lfloor>log 2 x\<rfloor> < 0" .
  ultimately have "\<lfloor>log 2 x\<rfloor> = - 1" by linarith
  with pos have b: "binade x = - 1" by (simp add: binade_def)
  have u: "ulp x = 1 / 9007199254740992" by (simp add: ulp_def b powi_minus_53)
  have q: "x / ulp x = 18014398509481983 / 2" unfolding u by (simp add: xv)
  have r: "roundHalfEven (18014398509481983 / 2) = 9007199254740992"
    by (simp add: roundHalfEven_def Let_def)
  have "roundValue x = of_int (roundHalfEven (x / ulp x)) * ulp x" by (rule roundValue_def)
  also have "\<dots> = of_int 9007199254740992 * ulp x" by (simp only: q r)
  also have "\<dots> = 1" unfolding u by simp
  finally have "roundValue x = 1" .
  with pos have "roundDouble x = Fin 1" by (simp add: roundDouble_def)
  then show ?thesis unfolding x_def .
qed

section \<open>Backoff delay\<close>

text \<open>
  The jitter factor reaches 1: at the largest double below 1 that \<^verbatim>\<open>Math.random()\<close> can
  return, \<open>0.5 + r * 0.5\<close> rounds to exactly 1.
\<close>

lemma jitter_factor_reaches_one:
  "dadd (Fin (1 / 2)) (dmul (Fin (1 - 2 powi (- 53))) (Fin (1 / 2))) = Fin 1"
  by (simp only: dmul.simps dadd.simps round_largest_draw_halved largest_draw_sum round_below_one)

lemma round_quarter: "roundDouble (1 / 4) = Fin (1 / 4)"
proof -
  have "(1 / 4 :: real) = of_int 1 * 2 powi (- 2) \<and> \<bar>1::int\<bar> < 2 ^ 53 \<and> - 1074 \<le> (- 2 :: int)"
    by (simp add: power_int_minus)
  moreover have "\<bar>1 / 4 :: real\<bar> < 2 ^ 1024" by simp
  ultimately have "representable (1 / 4)" unfolding representable_def by blast
  then show ?thesis by (intro round_representable) simp_all
qed

lemma round_three_quarters: "roundDouble (3 / 4) = Fin (3 / 4)"
proof -
  have "(3 / 4 :: real) = of_int 3 * 2 powi (- 2) \<and> \<bar>3::int\<bar> < 2 ^ 53 \<and> - 1074 \<le> (- 2 :: int)"
    by (simp add: power_int_minus)
  moreover have "\<bar>3 / 4 :: real\<bar> < 2 ^ 1024" by simp
  ultimately have "representable (3 / 4)" unfolding representable_def by blast
  then show ?thesis by (intro round_representable) simp_all
qed

lemma default_delay_attempt_2:
  "calculateBackoffDelay defaultRetryConfig 2 (Fin (1 / 2)) = Fin 3000"
  by (simp add: calculateBackoffDelay_def defaultRetryConfig_def Let_def dpow2_cases
      round_numeral round_quarter round_three_quarters)

text \<open>
  With the default policy (base 1000 ms, ceiling 10000 ms) the delay of attempt 5 is the
  ceiling 10000, below half of \<open>1000 * 2 ^ 5\<close>: the clamp wins over the lower bound. And
  with the least positive double as base delay and the draw 0, the delay of attempt 0 is
  0: half of the base delay is no double, and rounds to zero.
\<close>

theorem backoff_bounds_counterexample:
  "calculateBackoffDelay defaultRetryConfig 5 (Fin 0) = Fin 10000 \<and>
   (10000 :: real) < 1 / 2 * 1000 * 2 ^ 5 \<and>
   calculateBackoffDelay tinyBase 0 (Fin 0) = Fin 0"
proof -
  have "calculateBackoffDelay defaultRetryConfig 5 (Fin 0) = Fin 10000"
    by (simp add: calculateBackoffDelay_def defaultRetryConfig_def Let_def dpow2_cases
        round_numeral round_zero round_half)
  moreover have "calculateBackoffDelay tinyBase 0 (Fin 0) = Fin 0"
  proof -
    have "roundDouble MIN_VALUE = Fin MIN_VALUE"
      using MIN_VALUE_pos representable_MIN_VALUE by (rule round_representable)
    moreover have "roundDouble (MIN_VALUE * (1 / 2)) = Fin 0"
      using MIN_VALUE_pos by (intro round_underflow) simp_all
    ultimately show ?thesis
      by (simp add: calculateBackoffDelay_def tinyBase_def defaultRetryConfig_def Let_def
          dpow2_cases round_zero round_half)
  qed
  ultimately show ?thesis by simp
qed

text \<open>
  Claim C6, as amended. Let the base delay \<open>b\<close> and the ceiling \<open>M\<close> be positive finite
  doubles and \<open>r\<close> a draw of \<^verbatim>\<open>Math.random()\<close>, a double in \<open>[0, 1)\<close>. For every attempt
  number \<open>n\<close> the jitter factor \<open>0.5 + r * 0.5\<close> is a double in \<open>[0.5, 1.0]\<close>, and the
  delay is \<open>b * 2 ^ n\<close> scaled by that factor and clamped to \<open>M\<close>, every operation
  rounded as doubles are. The delay is a finite double in \<open>[0, M]\<close>. If moreover \<open>b\<close> is
  at least \<open>2^-1021\<close> (so that half of \<open>b * 2 ^ n\<close> is a double again), the delay lies
  between \<open>min (0.5 * b * 2 ^ n) M\<close> and \<open>M\<close> and is strictly positive; in particular it
  is at least \<open>0.5 * b * 2 ^ n\<close> whenever that bound does not exceed the ceiling.
\<close>

theorem backoff_delay_bounds:
  assumes draw: "representable r" "0 \<le> r" "r < 1"
    and base: "baseDelay rc = Fin b" "representable b" "0 < b"
    and ceil: "maxDelay rc = Fin M" "0 < M"
  shows "\<exists>f d. dadd (Fin (1 / 2)) (dmul (Fin r) (Fin (1 / 2))) = Fin f \<and> 1 / 2 \<le> f \<and> f \<le> 1 \<and>
           calculateBackoffDelay rc n (Fin r) = dmin (dmul (dmul (Fin b) (dpow2 n)) (Fin f)) (Fin M) \<and>
           calculateBackoffDelay rc n (Fin r) = Fin d \<and> 0 \<le> d \<and> d \<le> M \<and>
           (2 powi (- 1021) \<le> b \<longrightarrow> min (1 / 2 * b * 2 ^ n) M \<le> d \<and> 0 < d)"
proof -
  from jitter_factor [of r] draw obtain f
    where f: "dadd (Fin (1 / 2)) (dmul (Fin r) (Fin (1 / 2))) = Fin f" "1 / 2 \<le> f" "f \<le> 1"
    by auto
  let ?E = "dmul (Fin b) (dpow2 n)"
  have calc: "calculateBackoffDelay rc n (Fin r) = dmin (dmul ?E (Fin f)) (Fin M)"
    by (simp only: calculateBackoffDelay_def Let_def base(1) ceil(1) f(1))
  have "\<exists>d. dmin (dmul ?E (Fin f)) (Fin M) = Fin d \<and> 0 \<le> d \<and> d \<le> M \<and>
          (2 powi (- 1021) \<le> b \<longrightarrow> min (1 / 2 * b * 2 ^ n) M \<le> d \<and> 0 < d)"
  proof (cases "n < 1024 \<and> b * 2 ^ n < 2 ^ 1024")
    case False
    then have "?E = PosInf" by (simp only: exponential_delay [OF base(2,3)] if_False)
    then have "dmin (dmul ?E (Fin f)) (Fin M) = Fin M" using f(2) by simp
    then show ?thesis using ceil(2) by simp
  next
    case True
    let ?Ev = "b * 2 ^ n"
    from True have E: "?E = Fin ?Ev"
      by (simp only: exponential_delay [OF base(2,3)] if_True simp_thms)
    have pos: "0 < ?Ev" using base(3) by simp
    with True have "\<bar>?Ev\<bar> < 2 ^ 1024" by simp
    with base(2) have repE: "representable ?Ev" by (rule representable_scale)
    have lo: "?Ev / 2 \<le> ?Ev * f"
      using mult_left_mono [OF f(2) less_imp_le [OF pos]] by simp
    have hi: "?Ev * f \<le> ?Ev"
      using mult_left_mono [OF f(3) less_imp_le [OF pos]] by simp
    have nn: "0 \<le> ?Ev * f" using lo pos by linarith
    from round_between [OF nn representable_zero nn repE hi] obtain y
      where y: "roundDouble (?Ev * f) = Fin y" "0 \<le> y" "y \<le> ?Ev" by blast
    have low: "?Ev / 2 \<le> y" if b: "2 powi (- 1021) \<le> b"
    proof -
      have "b * 1 \<le> b * 2 ^ n" using base(3) by (intro mult_left_mono) simp_all
      then have "b \<le> b * 2 ^ n" by (simp only: mult_1_right)
      with b have "2 powi (- 1021) \<le> ?Ev" by (rule order_trans)
      with repE have "representable (?Ev / 2)" by (rule representable_halve)
      from round_between [OF nn this lo repE hi] y(1) show ?thesis by simp
    qed
    have d: "dmin (dmul ?E (Fin f)) (Fin M) = Fin (min y M)" by (simp add: E y(1))
    have "0 \<le> min y M" using y(2) ceil(2) by simp
    moreover have "min y M \<le> M" by simp
    moreover have "2 powi (- 1021) \<le> b \<longrightarrow> min (1 / 2 * b * 2 ^ n) M \<le> min y M \<and> 0 < min y M"
    proof
      assume "2 powi (- 1021) \<le> b"
      from low [OF this] pos ceil(2) show "min (1 / 2 * b * 2 ^ n) M \<le> min y M \<and> 0 < min y M"
        by (auto simp: min_def)
    qed
    ultimately show ?thesis using d by blast
  qed
  with f calc show ?thesis by auto
qed

theorem backoff_delay_bounds_witness:
  "calculateBackoffDelay defaultRetryConfig 2 (Fin (1 / 2)) = Fin 3000 \<and>
   (\<exists>f d. dadd (Fin (1 / 2)) (dmul (Fin (1 / 2)) (Fin (1 / 2))) = Fin f \<and> 1 / 2 \<le> f \<and> f \<le> 1 \<and>
      calculateBackoffDelay defaultRetryConfig 2 (Fin (1 / 2)) = Fin d \<and>
      min (1 / 2 * 1000 * 2 ^ 2) 10000 \<le> d \<and> d \<le> 10000 \<and> 0 < d)"
proof -
  have r: "representable (1 / 2)" "(0::real) \<le> 1 / 2" "(1 / 2 :: real) < 1"
    by (simp_all add: representable_half)
  have b: "baseDelay defaultRetryConfig = Fin 1000" "representable 1000" "(0::real) < 1000"
    using representable_int [of 1000] by (simp_all add: defaultRetryConfig_def)
  have m: "maxDelay defaultRetryConfig = Fin 10000" "(0::real) < 10000"
    by (simp_all add: defaultRetryConfig_def)
  have "(2::real) powi (- 1021) \<le> 2 powi 0" by (rule power_int_increasing) simp_all
  then have "(2::real) powi (- 1021) \<le> 1" by (simp only: power_int_0_right)
  then have n: "(2::real) powi (- 1021) \<le> 1000" by (rule order_trans) simp
  from backoff_delay_bounds [OF r b m, of 2] n
  have "\<exists>f d. dadd (Fin (1 / 2)) (dmul (Fin (1 / 2)) (Fin (1 / 2))) = Fin f \<and> 1 / 2 \<le> f \<and> f \<le> 1 \<and>
      calculateBackoffDelay defaultRetryConfig 2 (Fin (1 / 2)) = Fin d \<and>
      min (1 / 2 * 1000 * 2 ^ 2) 10000 \<le> d \<and> d \<le> 10000 \<and> 0 < d"
    by blast
  with default_delay_attempt_2 show ?thesis by (rule conjI)
qed

section \<open>The circuit breaker\<close>

lemma nextAttemptOrZero_Some: "nextAttemptTime cb = Some t \<Longrightarrow> nextAttemptOrZero cb = t"
  by (simp add: nextAttemptOrZero_def)

lemma config_onSuccess: "config (onSuccess cb) = config cb"
  by (simp add: onSuccess_def Let_def)

lemma config_onFailure: "config (onFailure now cb) = config cb"
  by (simp add: onFailure_def Let_def)

lemma onFailure_failures: "failures (onFailure now cb) = failures cb + 1"
  by (simp add: onFailure_def Let_def)

lemma onFailure_opens:
  "failureThreshold (config cb) \<le> failures cb + 1 \<Longrightarrow>
   state (onFailure now cb) = OPEN \<and>
   nextAttemptTime (onFailure now cb) = Some (now + resetTimeout (config cb))"
  by (simp add: onFailure_def Let_def)

lemma onFailure_below:
  "failures cb + 1 < failureThreshold (config cb) \<Longrightarrow> state (onFailure now cb) = state cb"
  by (simp add: onFailure_def Let_def)

lemma onSuccess_half_open:
  "state cb = HALF_OPEN \<Longrightarrow>
   successCount (onSuccess cb) = successCount cb + 1 \<and>
   (if 3 \<le> successCount cb + 1 then state (onSuccess cb) = CLOSED \<and> failures (onSuccess cb) = 0
    else state (onSuccess cb) = HALF_OPEN \<and> failures (onSuccess cb) = failures cb)"
  by (simp add: onSuccess_def Let_def)

lemma onSuccess_closed:
  "state cb = CLOSED \<Longrightarrow>
   state (onSuccess cb) = CLOSED \<and> failures (onSuccess cb) = max 0 (failures cb - 1)"
  by (simp add: onSuccess_def Let_def)

lemma execute_rejects:
  assumes "state cb = OPEN" and "nextAttemptTime cb = Some t" and "date_now h w < t"
  shows "execute h fn cb w = (Inl (Enhanced (createCircuitOpenError h w cb)), cb, w)"
  using assms by (simp add: execute_def nextAttemptOrZero_Some)

lemma execute_attempt_failure:
  assumes "\<not> (state cb = OPEN \<and> date_now h w < nextAttemptOrZero cb)" and "fn w = (Inl err, w')"
  shows "execute h fn cb w =
     (Inl err,
      onFailure (date_now h w')
        (if state cb = OPEN then cb\<lparr>state := HALF_OPEN, successCount := 0\<rparr> else cb), w')"
  using assms by (auto simp: execute_def Let_def)

lemma execute_attempt_success:
  assumes "\<not> (state cb = OPEN \<and> date_now h w < nextAttemptOrZero cb)" and "fn w = (Inr r, w')"
  shows "execute h fn cb w =
     (Inr r, onSuccess (if state cb = OPEN then cb\<lparr>state := HALF_OPEN, successCount := 0\<rparr> else cb), w')"
  using assms by (auto simp: execute_def Let_def)

lemma circuit_open_error_fields:
  assumes "nextAttemptTime cb = Some t"
  shows "code (createCircuitOpenError h w cb) = CIRCUIT_OPEN"
    and "status (createCircuitOpenError h w cb) = JNum 503"
    and "retryable (createCircuitOpenError h w cb) = False"
    and "suggestion (createCircuitOpenError h w cb) =
           ''Service is experiencing issues. Circuit will reset in '' @
           string_of_int \<lceil>real_of_int (t - date_now h w) / 1000\<rceil> @ '' seconds''"
  using assms by (simp_all add: createCircuitOpenError_def remainingSeconds_def)

lemma failure_step:
  assumes att: "\<not> (state cb = OPEN \<and> date_now h w < nextAttemptOrZero cb)"
    and f: "fn w = (Inl err, w')"
  shows "\<exists>cb'. execute h fn cb w = (Inl err, cb', w') \<and> failures cb' = failures cb + 1 \<and>
           (failureThreshold (config cb) \<le> failures cb + 1 \<longrightarrow>
              state cb' = OPEN \<and>
              nextAttemptTime cb' = Some (date_now h w' + resetTimeout (config cb))) \<and>
           (failures cb + 1 < failureThreshold (config cb) \<longrightarrow>
              state cb' = (if state cb = OPEN then HALF_OPEN else state cb))"
proof -
  let ?cb1 = "if state cb = OPEN then cb\<lparr>state := HALF_OPEN, successCount := 0\<rparr> else cb"
  have c: "config ?cb1 = config cb" and fl: "failures ?cb1 = failures cb"
    and st: "state ?cb1 = (if state cb = OPEN then HALF_OPEN else state cb)"
    by simp_all
  have "failures (onFailure (date_now h w') ?cb1) = failures cb + 1"
    by (simp only: onFailure_failures fl)
  moreover have "failureThreshold (config cb) \<le> failures cb + 1 \<longrightarrow>
      state (onFailure (date_now h w') ?cb1) = OPEN \<and>
      nextAttemptTime (onFailure (date_now h w') ?cb1) = Some (date_now h w' + resetTimeout (config cb))"
    using onFailure_opens [of ?cb1 "date_now h w'"] by (simp only: c fl) blast
  moreover have "failures cb + 1 < failureThreshold (config cb) \<longrightarrow>
      state (onFailure (date_now h w') ?cb1) = (if state cb = OPEN then HALF_OPEN else state cb)"
    using onFailure_below [of ?cb1 "date_now h w'"] by (simp only: c fl st) blast
  ultimately show ?thesis
    using execute_attempt_failure [where fn = fn, OF att f] by blast
qed

lemma rejected_step:
  assumes "state cb = OPEN" and "nextAttemptTime cb = Some t" and "date_now h w < t"
  shows "execute h fn cb w = (Inl (Enhanced (createCircuitOpenError h w cb)), cb, w) \<and>
         code (createCircuitOpenError h w cb) = CIRCUIT_OPEN \<and>
         status (createCircuitOpenError h w cb) = JNum 503 \<and>
         suggestion (createCircuitOpenError h w cb) =
           ''Service is experiencing issues. Circuit will reset in '' @
           string_of_int \<lceil>real_of_int (t - date_now h w) / 1000\<rceil> @ '' seconds''"
  using execute_rejects [OF assms, of fn] circuit_open_error_fields(1) [OF assms(2), of h w]
    circuit_open_error_fields(2) [OF assms(2), of h w]
    circuit_open_error_fields(4) [OF assms(2), of h w]
  by (intro conjI)

lemma elapsed_step:
  assumes o: "state cb = OPEN" and n: "nextAttemptTime cb = Some t" and el: "t \<le> date_now h w"
  shows "fst (execute h fn cb w) = fst (fn w) \<and> snd (snd (execute h fn cb w)) = snd (fn w) \<and>
         (\<forall>r w'. fn w = (Inr r, w') \<longrightarrow>
            state (fst (snd (execute h fn cb w))) = HALF_OPEN \<and>
            successCount (fst (snd (execute h fn cb w))) = 1)"
proof -
  have att: "\<not> (state cb = OPEN \<and> date_now h w < nextAttemptOrZero cb)"
    using el by (simp add: nextAttemptOrZero_Some [OF n])
  obtain x w' where fw: "fn w = (x, w')" by (cases "fn w")
  show ?thesis
  proof (cases x)
    case (Inl err)
    with fw execute_attempt_failure [where fn = fn and err = err and w' = w', OF att] show ?thesis by simp
  next
    case (Inr r)
    with fw have f: "fn w = (Inr r, w')" by simp
    have "execute h fn cb w = (Inr r, onSuccess (cb\<lparr>state := HALF_OPEN, successCount := 0\<rparr>), w')"
      using execute_attempt_success [where fn = fn, OF att f] o by simp
    moreover have "state (onSuccess (cb\<lparr>state := HALF_OPEN, successCount := 0\<rparr>)) = HALF_OPEN"
      "successCount (onSuccess (cb\<lparr>state := HALF_OPEN, successCount := 0\<rparr>)) = 1"
      by (simp_all add: onSuccess_def Let_def)
    ultimately show ?thesis using f by simp
  qed
qed

lemma half_open_success_step:
  assumes s: "state cb = HALF_OPEN" and f: "fn w = (Inr r, w')"
  shows "\<exists>cb'. execute h fn cb w = (Inr r, cb', w') \<and>
           successCount cb' = successCount cb + 1 \<and>
           (if 3 \<le> successCount cb + 1 then state cb' = CLOSED \<and> failures cb' = 0
            else state cb' = HALF_OPEN \<and> failures cb' = failures cb)"
proof -
  have att: "\<not> (state cb = OPEN \<and> date_now h w < nextAttemptOrZero cb)" using s by simp
  have "execute h fn cb w = (Inr r, onSuccess cb, w')"
    using execute_attempt_success [where fn = fn, OF att f] s by simp
  with onSuccess_half_open [OF s] show ?thesis by blast
qed

lemma closed_success_step:
  assumes s: "state cb = CLOSED" and f: "fn w = (Inr r, w')"
  shows "\<exists>cb'. execute h fn cb w = (Inr r, cb', w') \<and> state cb' = CLOSED \<and>
           failures cb' = max 0 (failures cb - 1)"
proof -
  have att: "\<not> (state cb = OPEN \<and> date_now h w < nextAttemptOrZero cb)" using s by simp
  have "execute h fn cb w = (Inr r, onSuccess cb, w')"
    using execute_attempt_success [where fn = fn, OF att f] s by simp
  with onSuccess_closed [OF s] show ?thesis by blast
qed

lemma three_successes:
  assumes o: "state cb = OPEN" and n: "nextAttemptTime cb = Some t" and el: "t \<le> date_now h w"
    and f1: "fn w = (Inr r1, w1)" and f2: "fn w1 = (Inr r2, w2)" and f3: "fn w2 = (Inr r3, w3)"
  shows "\<exists>cb1 cb2 cb3.
           execute h fn cb w = (Inr r1, cb1, w1) \<and> execute h fn cb1 w1 = (Inr r2, cb2, w2) \<and>
           execute h fn cb2 w2 = (Inr r3, cb3, w3) \<and>
           state cb1 = HALF_OPEN \<and> state cb2 = HALF_OPEN \<and> state cb3 = CLOSED \<and>
           failures cb3 = 0"
proof -
  have att: "\<not> (state cb = OPEN \<and> date_now h w < nextAttemptOrZero cb)"
    using el by (simp add: nextAttemptOrZero_Some [OF n])
  let ?cb1 = "onSuccess (cb\<lparr>state := HALF_OPEN, successCount := 0\<rparr>)"
  have e1: "execute h fn cb w = (Inr r1, ?cb1, w1)"
    using execute_attempt_success [where fn = fn, OF att f1] o by simp
  have s1: "state ?cb1 = HALF_OPEN" "successCount ?cb1 = 1"
    by (simp_all add: onSuccess_def Let_def)
  from half_open_success_step [where fn = fn and h = h, OF s1(1) f2] obtain cb2 where
    e2: "execute h fn ?cb1 w1 = (Inr r2, cb2, w2)" and s2: "successCount cb2 = 2" "state cb2 = HALF_OPEN"
    using s1(2) by auto
  from half_open_success_step [where fn = fn and h = h, OF s2(2) f3] obtain cb3 where
    e3: "execute h fn cb2 w2 = (Inr r3, cb3, w3)" and s3: "state cb3 = CLOSED" "failures cb3 = 0"
    using s2(1) by auto
  from e1 e2 e3 s1 s2 s3 show ?thesis by blast
qed


text \<open>
  Claim C1. The breaker starts CLOSED with no failures. Every call that is attempted and
  fails increments the failure counter; when the counter reaches the threshold the breaker
  is OPEN and the reset time is the time of the failure plus the reset timeout. While OPEN
  and before the reset time, every call is rejected with code CIRCUIT_OPEN and status 503,
  with the suggestion naming the remaining seconds rounded up; the outcome does not depend
  on the wrapped operation, and the breaker and the world are unchanged. Once the reset
  time has come, the next call is attempted (outcome and world are the operation's) through
  HALF_OPEN with the success counter reset, so that a success leaves the counter at 1;
  three successful calls in a row from there end CLOSED with no failures. A success in
  HALF_OPEN increments the success counter and closes the breaker, resetting the failures,
  when it reaches 3; a success in CLOSED decrements the failure counter, floored at 0.
\<close>

theorem circuit_breaker_machine:
  fixes h :: "'w host" and fn :: "'w \<Rightarrow> (thrown + 'r) \<times> 'w"
  shows
    "state (new_CircuitBreaker cfg) = CLOSED \<and> failures (new_CircuitBreaker cfg) = 0 \<and>
     (\<forall>cb w err w'.
        \<not> (state cb = OPEN \<and> date_now h w < nextAttemptOrZero cb) \<and> fn w = (Inl err, w') \<longrightarrow>
        (\<exists>cb'. execute h fn cb w = (Inl err, cb', w') \<and> failures cb' = failures cb + 1 \<and>
           (failureThreshold (config cb) \<le> failures cb + 1 \<longrightarrow>
              state cb' = OPEN \<and>
              nextAttemptTime cb' = Some (date_now h w' + resetTimeout (config cb))) \<and>
           (failures cb + 1 < failureThreshold (config cb) \<longrightarrow>
              state cb' = (if state cb = OPEN then HALF_OPEN else state cb)))) \<and>
     (\<forall>cb w t.
        state cb = OPEN \<and> nextAttemptTime cb = Some t \<and> date_now h w < t \<longrightarrow>
        execute h fn cb w = (Inl (Enhanced (createCircuitOpenError h w cb)), cb, w) \<and>
        code (createCircuitOpenError h w cb) = CIRCUIT_OPEN \<and>
        status (createCircuitOpenError h w cb) = JNum 503 \<and>
        suggestion (createCircuitOpenError h w cb) =
          ''Service is experiencing issues. Circuit will reset in '' @
          string_of_int \<lceil>real_of_int (t - date_now h w) / 1000\<rceil> @ '' seconds'') \<and>
     (\<forall>cb w t.
        state cb = OPEN \<and> nextAttemptTime cb = Some t \<and> t \<le> date_now h w \<longrightarrow>
        fst (execute h fn cb w) = fst (fn w) \<and> snd (snd (execute h fn cb w)) = snd (fn w) \<and>
        (\<forall>r w'. fn w = (Inr r, w') \<longrightarrow>
           state (fst (snd (execute h fn cb w))) = HALF_OPEN \<and>
           successCount (fst (snd (execute h fn cb w))) = 1)) \<and>
     (\<forall>cb w t r1 w1 r2 w2 r3 w3.
        state cb = OPEN \<and> nextAttemptTime cb = Some t \<and> t \<le> date_now h w \<and>
        fn w = (Inr r1, w1) \<and> fn w1 = (Inr r2, w2) \<and> fn w2 = (Inr r3, w3) \<longrightarrow>
        (\<exists>cb1 cb2 cb3.
           execute h fn cb w = (Inr r1, cb1, w1) \<and> execute h fn cb1 w1 = (Inr r2, cb2, w2) \<and>
           execute h fn cb2 w2 = (Inr r3, cb3, w3) \<and>
           state cb1 = HALF_OPEN \<and> state cb2 = HALF_OPEN \<and> state cb3 = CLOSED \<and>
           failures cb3 = 0)) \<and>
     (\<forall>cb w r w'.
        state cb = HALF_OPEN \<and> fn w = (Inr r, w') \<longrightarrow>
        (\<exists>cb'. execute h fn cb w = (Inr r, cb', w') \<and>
           successCount cb' = successCount cb + 1 \<and>
           (if 3 \<le> successCount cb + 1 then state cb' = CLOSED \<and> failures cb' = 0
            else state cb' = HALF_OPEN \<and> failures cb' = failures cb))) \<and>
     (\<forall>cb w r w'.
        state cb = CLOSED \<and> fn w = (Inr r, w') \<longrightarrow>
        (\<exists>cb'. execute h fn cb w = (Inr r, cb', w') \<and> state cb' = CLOSED \<and>
           failures cb' = max 0 (failures cb - 1)))"
proof (intro conjI allI impI)
  show "state (new_CircuitBreaker cfg) = CLOSED" "failures (new_CircuitBreaker cfg) = 0"
    by (simp_all add: new_CircuitBreaker_def)
next
  fix cb :: CircuitBreaker and w err w'
  assume "\<not> (state cb = OPEN \<and> date_now h w < nextAttemptOrZero cb) \<and> fn w = (Inl err, w')"
  then show "\<exists>cb'. execute h fn cb w = (Inl err, cb', w') \<and> failures cb' = failures cb + 1 \<and>
           (failureThreshold (config cb) \<le> failures cb + 1 \<longrightarrow>
              state cb' = OPEN \<and>
              nextAttemptTime cb' = Some (date_now h w' + resetTimeout (config cb))) \<and>
           (failures cb + 1 < failureThreshold (config cb) \<longrightarrow>
              state cb' = (if state cb = OPEN then HALF_OPEN else state cb))"
    using failure_step [where fn = fn] by blast
next
  fix cb :: CircuitBreaker and w t
  assume a: "state cb = OPEN \<and> nextAttemptTime cb = Some t \<and> date_now h w < t"
  then have r: "execute h fn cb w = (Inl (Enhanced (createCircuitOpenError h w cb)), cb, w) \<and>
         code (createCircuitOpenError h w cb) = CIRCUIT_OPEN \<and>
         status (createCircuitOpenError h w cb) = JNum 503 \<and>
         suggestion (createCircuitOpenError h w cb) =
           ''Service is experiencing issues. Circuit will reset in '' @
           string_of_int \<lceil>real_of_int (t - date_now h w) / 1000\<rceil> @ '' seconds''"
    using rejected_step [where fn = fn and h = h and w = w and cb = cb and t = t] by blast
  from r show "execute h fn cb w = (Inl (Enhanced (createCircuitOpenError h w cb)), cb, w)" by blast
  from r show "code (createCircuitOpenError h w cb) = CIRCUIT_OPEN" by blast
  from r show "status (createCircuitOpenError h w cb) = JNum 503" by blast
  from r show "suggestion (createCircuitOpenError h w cb) =
           ''Service is experiencing issues. Circuit will reset in '' @
           string_of_int \<lceil>real_of_int (t - date_now h w) / 1000\<rceil> @ '' seconds''" by blast
next
  fix cb :: CircuitBreaker and w t
  assume a: "state cb = OPEN \<and> nextAttemptTime cb = Some t \<and> t \<le> date_now h w"
  then have r: "fst (execute h fn cb w) = fst (fn w) \<and> snd (snd (execute h fn cb w)) = snd (fn w) \<and>
         (\<forall>r w'. fn w = (Inr r, w') \<longrightarrow>
            state (fst (snd (execute h fn cb w))) = HALF_OPEN \<and>
            successCount (fst (snd (execute h fn cb w))) = 1)"
    using elapsed_step [where fn = fn and h = h and w = w and cb = cb and t = t] by blast
  from r show "fst (execute h fn cb w) = fst (fn w)" by blast
  from r show "snd (snd (execute h fn cb w)) = snd (fn w)" by blast
  fix r' w'
  assume "fn w = (Inr r', w')"
  with r show "state (fst (snd (execute h fn cb w))) = HALF_OPEN"
    "successCount (fst (snd (execute h fn cb w))) = 1" by blast+
next
  fix cb :: CircuitBreaker and w t r1 w1 r2 w2 r3 w3
  assume "state cb = OPEN \<and> nextAttemptTime cb = Some t \<and> t \<le> date_now h w \<and>
        fn w = (Inr r1, w1) \<and> fn w1 = (Inr r2, w2) \<and> fn w2 = (Inr r3, w3)"
  then show "\<exists>cb1 cb2 cb3.
           execute h fn cb w = (Inr r1, cb1, w1) \<and> execute h fn cb1 w1 = (Inr r2, cb2, w2) \<and>
           execute h fn cb2 w2 = (Inr r3, cb3, w3) \<and>
           state cb1 = HALF_OPEN \<and> state cb2 = HALF_OPEN \<and> state cb3 = CLOSED \<and>
           failures cb3 = 0"
    using three_successes [where fn = fn and h = h and w = w and cb = cb and t = t] by blast
next
  fix cb :: CircuitBreaker and w r w'
  assume "state cb = HALF_OPEN \<and> fn w = (Inr r, w')"
  then show "\<exists>cb'. execute h fn cb w = (Inr r, cb', w') \<and>
           successCount cb' = successCount cb + 1 \<and>
           (if 3 \<le> successCount cb + 1 then state cb' = CLOSED \<and> failures cb' = 0
            else state cb' = HALF_OPEN \<and> failures cb' = failures cb)"
    using half_open_success_step [where fn = fn and h = h and w = w and cb = cb] by blast
next
  fix cb :: CircuitBreaker and w r w'
  assume "state cb = CLOSED \<and> fn w = (Inr r, w')"
  then show "\<exists>cb'. execute h fn cb w = (Inr r, cb', w') \<and> state cb' = CLOSED \<and>
           failures cb' = max 0 (failures cb - 1)"
    using closed_success_step [where fn = fn and h = h and w = w and cb = cb] by blast
qed


lemma string_of_int_one: "string_of_int 1 = ''1''"
  by code_simp

theorem circuit_breaker_machine_witness:
  "(\<exists>cb'. execute clockHost alwaysThrows (new_CircuitBreaker thresholdOne) 0 = (Inl TypeError, cb', 1) \<and>
          failures cb' = 1 \<and> state cb' = OPEN \<and> nextAttemptTime cb' = Some 101) \<and>
   execute clockHost alwaysResolves openedAtOne 50 =
     (Inl (Enhanced (createCircuitOpenError clockHost 50 openedAtOne)), openedAtOne, 50) \<and>
   code (createCircuitOpenError clockHost 50 openedAtOne) = CIRCUIT_OPEN \<and>
   status (createCircuitOpenError clockHost 50 openedAtOne) = JNum 503 \<and>
   suggestion (createCircuitOpenError clockHost 50 openedAtOne) =
     ''Service is experiencing issues. Circuit will reset in 1 seconds'' \<and>
   fst (execute clockHost alwaysThrows openedAtOne 101) = Inl TypeError \<and>
   snd (snd (execute clockHost alwaysThrows openedAtOne 101)) = 102 \<and>
   state (fst (snd (execute clockHost alwaysResolves openedAtOne 101))) = HALF_OPEN \<and>
   successCount (fst (snd (execute clockHost alwaysResolves openedAtOne 101))) = 1 \<and>
   (\<exists>cb1 cb2 cb3.
      execute clockHost alwaysResolves openedAtOne 200 = (Inr (), cb1, 201) \<and>
      execute clockHost alwaysResolves cb1 201 = (Inr (), cb2, 202) \<and>
      execute clockHost alwaysResolves cb2 202 = (Inr (), cb3, 203) \<and>
      state cb1 = HALF_OPEN \<and> state cb2 = HALF_OPEN \<and> state cb3 = CLOSED \<and> failures cb3 = 0) \<and>
   (\<exists>cb'. execute clockHost alwaysResolves (openedAtOne\<lparr>state := HALF_OPEN, successCount := 2\<rparr>) 300
            = (Inr (), cb', 301) \<and>
          successCount cb' = 3 \<and> state cb' = CLOSED \<and> failures cb' = 0) \<and>
   (\<exists>cb'. execute clockHost alwaysResolves (new_CircuitBreaker thresholdOne) 0 = (Inr (), cb', 1) \<and>
          state cb' = CLOSED \<and> failures cb' = 0)"
proof -
  note T = circuit_breaker_machine [of thresholdOne clockHost alwaysThrows]
  note R = circuit_breaker_machine [of thresholdOne clockHost alwaysResolves]
  note T_failure = T [THEN conjunct2, THEN conjunct2, THEN conjunct1, rule_format]
  note R_rejected = R [THEN conjunct2, THEN conjunct2, THEN conjunct2, THEN conjunct1, rule_format]
  note T_elapsed = T [THEN conjunct2, THEN conjunct2, THEN conjunct2, THEN conjunct2,
      THEN conjunct1, rule_format]
  note R_elapsed = R [THEN conjunct2, THEN conjunct2, THEN conjunct2, THEN conjunct2,
      THEN conjunct1, rule_format]
  note R_three = R [THEN conjunct2, THEN conjunct2, THEN conjunct2, THEN conjunct2,
      THEN conjunct2, THEN conjunct1, rule_format]
  note R_half = R [THEN conjunct2, THEN conjunct2, THEN conjunct2, THEN conjunct2,
      THEN conjunct2, THEN conjunct2, THEN conjunct1, rule_format]
  note R_closed = R [THEN conjunct2, THEN conjunct2, THEN conjunct2, THEN conjunct2,
      THEN conjunct2, THEN conjunct2, THEN conjunct2, rule_format]
  have new: "state (new_CircuitBreaker thresholdOne) = CLOSED"
    "failures (new_CircuitBreaker thresholdOne) = 0"
    "config (new_CircuitBreaker thresholdOne) = thresholdOne"
    by (simp_all add: new_CircuitBreaker_def)
  have cfg: "failureThreshold thresholdOne = 1" "resetTimeout thresholdOne = 100"
    by (simp_all add: thresholdOne_def)
  have opened: "state openedAtOne = OPEN" "nextAttemptTime openedAtOne = Some 101"
    "failures openedAtOne = 1"
    by (simp_all add: openedAtOne_def)
  have now: "\<And>w. date_now clockHost w = w" by (simp add: clockHost_def)
  have thr: "\<And>w. alwaysThrows w = (Inl TypeError, w + 1)" by (simp add: alwaysThrows_def)
  have res: "\<And>w. alwaysResolves w = (Inr (), w + 1)" by (simp add: alwaysResolves_def)
  have f: "\<not> (state (new_CircuitBreaker thresholdOne) = OPEN \<and>
              date_now clockHost 0 < nextAttemptOrZero (new_CircuitBreaker thresholdOne)) \<and>
           alwaysThrows 0 = (Inl TypeError, 1)"
    by (simp add: new thr)
  from T_failure [OF f] have w1: "\<exists>cb'. execute clockHost alwaysThrows (new_CircuitBreaker thresholdOne) 0 = (Inl TypeError, cb', 1) \<and>
          failures cb' = 1 \<and> state cb' = OPEN \<and> nextAttemptTime cb' = Some 101"
    by (simp add: new cfg now)
  have o50: "state openedAtOne = OPEN \<and> nextAttemptTime openedAtOne = Some 101 \<and> date_now clockHost 50 < 101"
    by (simp add: opened now)
  have secs: "string_of_int \<lceil>real_of_int (101 - date_now clockHost 50) / 1000\<rceil> = ''1''"
    by (simp add: now string_of_int_one)
  from R_rejected [OF o50] have w2: "execute clockHost alwaysResolves openedAtOne 50 =
     (Inl (Enhanced (createCircuitOpenError clockHost 50 openedAtOne)), openedAtOne, 50) \<and>
   code (createCircuitOpenError clockHost 50 openedAtOne) = CIRCUIT_OPEN \<and>
   status (createCircuitOpenError clockHost 50 openedAtOne) = JNum 503 \<and>
   suggestion (createCircuitOpenError clockHost 50 openedAtOne) =
     ''Service is experiencing issues. Circuit will reset in 1 seconds''"
    by (simp only: secs) simp
  have o101: "state openedAtOne = OPEN \<and> nextAttemptTime openedAtOne = Some 101 \<and> 101 \<le> date_now clockHost 101"
    by (simp add: opened now)
  from T_elapsed [OF o101] have w3: "fst (execute clockHost alwaysThrows openedAtOne 101) = Inl TypeError \<and>
   snd (snd (execute clockHost alwaysThrows openedAtOne 101)) = 102"
    by (simp add: thr)
  from R_elapsed [OF o101] have w4: "state (fst (snd (execute clockHost alwaysResolves openedAtOne 101))) = HALF_OPEN \<and>
   successCount (fst (snd (execute clockHost alwaysResolves openedAtOne 101))) = 1"
    by (simp add: res)
  have o200: "state openedAtOne = OPEN \<and> nextAttemptTime openedAtOne = Some 101 \<and> 101 \<le> date_now clockHost 200 \<and>
     alwaysResolves 200 = (Inr (), 201) \<and> alwaysResolves 201 = (Inr (), 202) \<and>
     alwaysResolves 202 = (Inr (), 203)"
    by (simp add: opened now res)
  note w5 = R_three [OF o200]
  have h300: "state (openedAtOne\<lparr>state := HALF_OPEN, successCount := 2\<rparr>) = HALF_OPEN \<and>
     alwaysResolves 300 = (Inr (), 301)"
    by (simp add: res)
  from R_half [OF h300]
  have w6: "\<exists>cb'. execute clockHost alwaysResolves (openedAtOne\<lparr>state := HALF_OPEN, successCount := 2\<rparr>) 300
            = (Inr (), cb', 301) \<and>
          successCount cb' = 3 \<and> state cb' = CLOSED \<and> failures cb' = 0"
    by simp
  have c0: "state (new_CircuitBreaker thresholdOne) = CLOSED \<and> alwaysResolves 0 = (Inr (), 1)"
    by (simp add: new res)
  from R_closed [OF c0]
  have w7: "\<exists>cb'. execute clockHost alwaysResolves (new_CircuitBreaker thresholdOne) 0 = (Inr (), cb', 1) \<and>
          state cb' = CLOSED \<and> failures cb' = 0"
    by (simp add: new)
  from w1 w2 w3 w4 w5 w6 w7 show ?thesis by (intro conjI) blast+
qed

section \<open>The failure counter outside CLOSED\<close>

lemma invariant_new: "breakerInvariant cfg (new_CircuitBreaker cfg)"
  by (simp add: breakerInvariant_def new_CircuitBreaker_def)

lemma invariant_onSuccess: "breakerInvariant cfg cb \<Longrightarrow> breakerInvariant cfg (onSuccess cb)"
  by (auto simp: breakerInvariant_def onSuccess_def Let_def)

lemma invariant_onFailure: "breakerInvariant cfg cb \<Longrightarrow> breakerInvariant cfg (onFailure now cb)"
  by (auto simp: breakerInvariant_def onFailure_def Let_def)

lemma invariant_step: "breakerInvariant cfg cb \<Longrightarrow> breakerInvariant cfg (cb_step cb ev)"
proof (cases ev)
  case (Enter now)
  assume "breakerInvariant cfg cb"
  with Enter show ?thesis by (auto simp: breakerInvariant_def)
next
  case Succeeded
  assume "breakerInvariant cfg cb"
  with Succeeded show ?thesis by (simp add: invariant_onSuccess)
next
  case (Failed now)
  assume "breakerInvariant cfg cb"
  with Failed show ?thesis by (simp add: invariant_onFailure)
qed

lemma invariant_foldl:
  "breakerInvariant cfg cb \<Longrightarrow> breakerInvariant cfg (foldl cb_step cb evs)"
  by (induction evs arbitrary: cb) (simp_all add: invariant_step)

lemma invariant_run: "breakerInvariant cfg (cb_run cfg evs)"
  unfolding cb_run_def by (rule invariant_foldl [OF invariant_new])

text \<open>A call of \<^const>\<open>execute\<close> is one of these event sequences.\<close>

lemma execute_events:
  "\<exists>evs. fst (snd (execute h fn cb w)) = foldl cb_step cb evs"
proof (cases "state cb = OPEN \<and> date_now h w < nextAttemptOrZero cb")
  case True
  then have "fst (snd (execute h fn cb w)) = foldl cb_step cb []"
    by (simp add: execute_def)
  then show ?thesis ..
next
  case False
  obtain x w' where fw: "fn w = (x, w')" by (cases "fn w")
  have enter: "cb_step cb (Enter (date_now h w)) =
      (if state cb = OPEN then cb\<lparr>state := HALF_OPEN, successCount := 0\<rparr> else cb)"
    using False by auto
  show ?thesis
  proof (cases x)
    case (Inl err)
    with fw False have "fst (snd (execute h fn cb w)) =
        foldl cb_step cb [Enter (date_now h w), Failed (date_now h w')]"
      by (simp add: execute_attempt_failure [where fn = fn] enter)
    then show ?thesis ..
  next
    case (Inr r)
    with fw False have "fst (snd (execute h fn cb w)) =
        foldl cb_step cb [Enter (date_now h w), Succeeded]"
      by (simp add: execute_attempt_success [where fn = fn] enter)
    then show ?thesis ..
  qed
qed

lemma half_open_above_threshold:
  assumes "breakerInvariant cfg cb" and "state cb = HALF_OPEN"
  shows "failureThreshold cfg \<le> failures cb" and "state (onFailure now cb) = OPEN"
  using assms by (auto simp: breakerInvariant_def onFailure_def Let_def)

text \<open>
  Claim C10. In every HALF_OPEN state the breaker can reach from a fresh one, by any
  interleaving of call entries, successes and failures at any times, the failure counter is
  at least the threshold: it is reset only on the way to CLOSED. So a failure in such a state
  leaves the breaker OPEN at once, and so does a failing call of \<^const>\<open>execute\<close>. This
  holds for every configuration, in particular for every threshold from 1 upwards.
\<close>

theorem half_open_failure_reopens:
  fixes h :: "'w host" and fn :: "'w \<Rightarrow> (thrown + 'r) \<times> 'w"
  assumes half: "state (cb_run cfg evs) = HALF_OPEN"
  shows "failureThreshold cfg \<le> failures (cb_run cfg evs) \<and>
         state (onFailure now (cb_run cfg evs)) = OPEN \<and>
         (\<forall>w err w'. fn w = (Inl err, w') \<longrightarrow>
            state (fst (snd (execute h fn (cb_run cfg evs) w))) = OPEN)"
proof -
  note inv = invariant_run [of cfg evs]
  have a: "failureThreshold cfg \<le> failures (cb_run cfg evs)"
    using inv half by (rule half_open_above_threshold)
  have b: "\<And>t. state (onFailure t (cb_run cfg evs)) = OPEN"
    using inv half by (rule half_open_above_threshold)
  have c: "\<forall>w err w'. fn w = (Inl err, w') \<longrightarrow>
            state (fst (snd (execute h fn (cb_run cfg evs) w))) = OPEN"
  proof (intro allI impI)
    fix w err w'
    assume f: "fn w = (Inl err, w')"
    have att: "\<not> (state (cb_run cfg evs) = OPEN \<and> date_now h w < nextAttemptOrZero (cb_run cfg evs))"
      using half by simp
    from execute_attempt_failure [where fn = fn, OF att f] half b
    show "state (fst (snd (execute h fn (cb_run cfg evs) w))) = OPEN" by simp
  qed
  from a b c show ?thesis by blast
qed

theorem half_open_failure_reopens_witness:
  "state (cb_run thresholdOne [Enter 0, Failed 1, Enter 101]) = HALF_OPEN \<and>
   failureThreshold thresholdOne \<le> failures (cb_run thresholdOne [Enter 0, Failed 1, Enter 101]) \<and>
   state (onFailure 102 (cb_run thresholdOne [Enter 0, Failed 1, Enter 101])) = OPEN \<and>
   state (fst (snd (execute clockHost alwaysThrows
                     (cb_run thresholdOne [Enter 0, Failed 1, Enter 101]) 101))) = OPEN"
proof -
  have half: "state (cb_run thresholdOne [Enter 0, Failed 1, Enter 101]) = HALF_OPEN"
    by (simp add: cb_run_def new_CircuitBreaker_def thresholdOne_def onFailure_def
        nextAttemptOrZero_def Let_def)
  have thr: "alwaysThrows 101 = (Inl TypeError, 102)" by (simp add: alwaysThrows_def)
  from half_open_failure_reopens [OF half, of 102 alwaysThrows clockHost] half thr
  show ?thesis by blast
qed

section \<open>Retries\<close>

lemma counted_apply: "counted fn (w, k) = (case fn w of (x, w') \<Rightarrow> (x, (w', Suc k)))"
  by (simp add: counted_def)

lemma counted_host_simps:
  "date_now (counted_host h) (w, k) = date_now h w"
  "toISOString_now (counted_host h) (w, k) = toISOString_now h w"
  "math_random (counted_host h) (w, k) = (case math_random h w of (r, w') \<Rightarrow> (r, (w', k)))"
  "sleep (counted_host h) ms (w, k) = (sleep h ms w, k)"
  by (simp_all add: counted_host_def)

lemma enhanceError_counted:
  "enhanceError (counted_host h) (w, k) e ctx rc = enhanceError h w e ctx rc"
  by (simp add: enhanceError_def Let_def counted_host_simps split: sum.splits)

lemma retry_counted_unfold:
  "retryOperation rc (counted_host h) (counted fn) ctx n (w, k) =
     (case fn w of
        (Inr result, w1) \<Rightarrow> (Inr result, (w1, Suc k))
      | (Inl error, w1) \<Rightarrow>
          (case enhanceError h w1 error ctx (Some n) of
             Inl t \<Rightarrow> (Inl t, (w1, Suc k))
           | Inr e \<Rightarrow>
               if int n < maxRetries rc \<and>
                  (case shouldRetry rc of None \<Rightarrow> False | Some p \<Rightarrow> p e)
               then
                 (case math_random h w1 of
                    (r, w2) \<Rightarrow>
                      retryOperation rc (counted_host h) (counted fn) ctx (n + 1)
                        (sleep h (calculateBackoffDelay rc n r) w2, Suc k))
               else (Inl (Enhanced e), (w1, Suc k))))"
  by (subst retryOperation.simps)
     (simp add: counted_apply counted_host_simps enhanceError_counted
        split: prod.splits sum.splits)

lemma enhanceError_retryCount:
  "enhanceError h w e ctx rc = Inr out \<Longrightarrow> retryCount (context out) = rc"
  by (auto simp: enhanceError_def Let_def split: sum.splits)

lemma attemptAccepted_unfold:
  assumes "attemptAccepted rc h fn ctx w n"
  shows "\<exists>err w1 e p. fn (attemptWorld rc h fn n w) = (Inl err, w1) \<and>
           enhanceError h w1 err ctx (Some n) = Inr e \<and> shouldRetry rc = Some p \<and> p e"
  using assms
  by (auto simp: attemptAccepted_def split: prod.splits sum.splits option.splits)

lemma retry_exhausts:
  assumes acc: "\<forall>m. int m \<le> maxRetries rc \<longrightarrow> attemptAccepted rc h fn ctx w m"
    and le: "int n \<le> maxRetries rc"
  shows "\<exists>e w'. retryOperation rc (counted_host h) (counted fn) ctx n
                   (attemptWorld rc h fn n w, k)
                 = (Inl (Enhanced e), (w', k + nat (maxRetries rc - int n) + 1)) \<and>
               retryCount (context e) = Some (nat (maxRetries rc))"
  using le
proof (induction "nat (maxRetries rc - int n)" arbitrary: n k rule: less_induct)
  case less
  let ?w = "attemptWorld rc h fn n w"
  from acc less.prems have "attemptAccepted rc h fn ctx w n" by blast
  from attemptAccepted_unfold [OF this] obtain err w1 e p where
    f: "fn ?w = (Inl err, w1)" and en: "enhanceError h w1 err ctx (Some n) = Inr e"
    and p: "shouldRetry rc = Some p" "p e"
    by blast
  show ?case
  proof (cases "int n < maxRetries rc")
    case True
    obtain r w2 where mr: "math_random h w1 = (r, w2)" by (cases "math_random h w1")
    have next_world: "attemptWorld rc h fn (n + 1) w = sleep h (calculateBackoffDelay rc n r) w2"
      by (simp add: f mr)
    have step: "retryOperation rc (counted_host h) (counted fn) ctx n (?w, k) =
        retryOperation rc (counted_host h) (counted fn) ctx (n + 1)
          (attemptWorld rc h fn (n + 1) w, Suc k)"
      by (subst retry_counted_unfold) (simp add: f en p True mr)
    have m: "nat (maxRetries rc - int (n + 1)) < nat (maxRetries rc - int n)"
      and l: "int (n + 1) \<le> maxRetries rc"
      using True by auto
    from less.hyps [OF m l, of "Suc k"]
    obtain e' w' where
      r: "retryOperation rc (counted_host h) (counted fn) ctx (n + 1)
            (attemptWorld rc h fn (n + 1) w, Suc k)
          = (Inl (Enhanced e'), (w', Suc k + nat (maxRetries rc - int (n + 1)) + 1))"
      and c: "retryCount (context e') = Some (nat (maxRetries rc))"
      by blast
    have "Suc k + nat (maxRetries rc - int (n + 1)) + 1 = k + nat (maxRetries rc - int n) + 1"
      using True by auto
    with step r c show ?thesis by auto
  next
    case False
    with less.prems have eq: "int n = maxRetries rc" by simp
    have "retryOperation rc (counted_host h) (counted fn) ctx n (?w, k) = (Inl (Enhanced e), (w1, Suc k))"
      by (subst retry_counted_unfold) (simp add: f en False)
    moreover have "retryCount (context e) = Some (nat (maxRetries rc))"
      using enhanceError_retryCount [OF en] eq by simp
    ultimately show ?thesis using eq by auto
  qed
qed

lemma retry_stops:
  assumes f: "fn w = (Inl err, w1)" and en: "enhanceError h w1 err ctx (Some n) = Inr e"
    and no: "case shouldRetry rc of None \<Rightarrow> True | Some p \<Rightarrow> \<not> p e"
  shows "retryOperation rc (counted_host h) (counted fn) ctx n (w, k) = (Inl (Enhanced e), (w1, Suc k))"
proof -
  have "\<not> (case shouldRetry rc of None \<Rightarrow> False | Some p \<Rightarrow> p e)"
    using no by (cases "shouldRetry rc") simp_all
  then show ?thesis
    by (subst retry_counted_unfold) (simp add: f en)
qed

lemma retry_bound:
  "\<exists>res w' k'. retryOperation rc (counted_host h) (counted fn) ctx n (w, k) = (res, (w', k')) \<and>
       k < k' \<and> int k' \<le> int k + max 0 (maxRetries rc - int n) + 1"
proof (induction "nat (maxRetries rc - int n)" arbitrary: n w k rule: less_induct)
  case less
  obtain x w1 where f: "fn w = (x, w1)" by (cases "fn w")
  show ?case
  proof (cases x)
    case (Inr result)
    have "retryOperation rc (counted_host h) (counted fn) ctx n (w, k) = (Inr result, (w1, Suc k))"
      by (subst retry_counted_unfold) (simp add: f Inr)
    then show ?thesis by auto
  next
    case (Inl err)
    show ?thesis
    proof (cases "enhanceError h w1 err ctx (Some n)")
      case t: (Inl t)
      have "retryOperation rc (counted_host h) (counted fn) ctx n (w, k) = (Inl t, (w1, Suc k))"
        by (subst retry_counted_unfold) (simp add: f Inl t)
      then show ?thesis by auto
    next
      case e: (Inr e)
      show ?thesis
      proof (cases "int n < maxRetries rc \<and>
                    (case shouldRetry rc of None \<Rightarrow> False | Some p \<Rightarrow> p e)")
        case True
        obtain r w2 where mr: "math_random h w1 = (r, w2)" by (cases "math_random h w1")
        have step: "retryOperation rc (counted_host h) (counted fn) ctx n (w, k) =
            retryOperation rc (counted_host h) (counted fn) ctx (n + 1)
              (sleep h (calculateBackoffDelay rc n r) w2, Suc k)"
          by (subst retry_counted_unfold) (simp add: f Inl e True mr)
        have m: "nat (maxRetries rc - int (n + 1)) < nat (maxRetries rc - int n)"
          using True by auto
        from less.hyps [OF m, of "sleep h (calculateBackoffDelay rc n r) w2" "Suc k"]
        obtain res w' k' where
          r: "retryOperation rc (counted_host h) (counted fn) ctx (n + 1)
                (sleep h (calculateBackoffDelay rc n r) w2, Suc k) = (res, (w', k'))"
          and b: "Suc k < k'" "int k' \<le> int (Suc k) + max 0 (maxRetries rc - int (n + 1)) + 1"
          by blast
        have "int k' \<le> int k + max 0 (maxRetries rc - int n) + 1"
          using b(2) True by auto
        with step r b(1) show ?thesis by auto
      next
        case False
        have "retryOperation rc (counted_host h) (counted fn) ctx n (w, k) = (Inl (Enhanced e), (w1, Suc k))"
          by (subst retry_counted_unfold) (use False in \<open>auto simp: f Inl e\<close>)
        then show ?thesis by auto
      qed
    qed
  qed
qed


text \<open>
  Claim C3. Attempts are counted by running the operation wrapped by \<^const>\<open>counted\<close>
  from a world whose counter is 0. With a non-negative \<open>maxRetries\<close>, an operation every
  attempt of which in the run (the attempts \<open>0, \<dots>, maxRetries\<close>, each in the world its
  predecessor left) fails with an error the retry predicate accepts is attempted exactly
  \<open>maxRetries + 1\<close> times, and then one enhanced error is thrown (the classification of the
  last failure, stamped with retry count \<open>maxRetries\<close>). An operation whose first failure
  the predicate rejects (or with no predicate) is attempted exactly once, whatever
  \<open>maxRetries\<close> is; so is, under the default predicate, one whose first failure is
  classified with status 400. For every operation and policy the recursion returns, after
  at least one and at most \<open>max 0 maxRetries + 1\<close> attempts.
\<close>

theorem retry_attempts:
  fixes h :: "'w host" and fn :: "'w \<Rightarrow> (jsval + 'r) \<times> 'w"
  shows
    "(0 \<le> maxRetries rc \<and>
      (\<forall>n. int n \<le> maxRetries rc \<longrightarrow> attemptAccepted rc h fn ctx w n) \<longrightarrow>
        (\<exists>e w'. retryOperation rc (counted_host h) (counted fn) ctx 0 (w, 0)
                  = (Inl (Enhanced e), (w', nat (maxRetries rc) + 1)) \<and>
                retryCount (context e) = Some (nat (maxRetries rc)))) \<and>
     (\<forall>err w1 e.
        fn w = (Inl err, w1) \<and> enhanceError h w1 err ctx (Some 0) = Inr e \<and>
        (case shouldRetry rc of None \<Rightarrow> True | Some p \<Rightarrow> \<not> p e) \<longrightarrow>
        retryOperation rc (counted_host h) (counted fn) ctx 0 (w, 0) = (Inl (Enhanced e), (w1, 1))) \<and>
     (\<forall>err w1 e.
        shouldRetry rc = shouldRetry defaultRetryConfig \<and>
        fn w = (Inl err, w1) \<and> enhanceError h w1 err ctx (Some 0) = Inr e \<and>
        status e = JNum 400 \<longrightarrow>
        retryOperation rc (counted_host h) (counted fn) ctx 0 (w, 0) = (Inl (Enhanced e), (w1, 1))) \<and>
     (\<exists>res w' k. retryOperation rc (counted_host h) (counted fn) ctx 0 (w, 0) = (res, (w', k)) \<and>
        1 \<le> k \<and> int k \<le> max 0 (maxRetries rc) + 1)"
proof (intro conjI allI impI)
  assume a: "0 \<le> maxRetries rc \<and>
      (\<forall>n. int n \<le> maxRetries rc \<longrightarrow> attemptAccepted rc h fn ctx w n)"
  then have "int 0 \<le> maxRetries rc" by simp
  from retry_exhausts [OF conjunct2 [OF a] this, of 0]
  show "\<exists>e w'. retryOperation rc (counted_host h) (counted fn) ctx 0 (w, 0)
                  = (Inl (Enhanced e), (w', nat (maxRetries rc) + 1)) \<and>
                retryCount (context e) = Some (nat (maxRetries rc))"
    by simp
next
  fix err w1 e
  assume "fn w = (Inl err, w1) \<and> enhanceError h w1 err ctx (Some 0) = Inr e \<and>
        (case shouldRetry rc of None \<Rightarrow> True | Some p \<Rightarrow> \<not> p e)"
  then show "retryOperation rc (counted_host h) (counted fn) ctx 0 (w, 0) = (Inl (Enhanced e), (w1, 1))"
    using retry_stops [where fn = fn and w = w and h = h and n = 0 and k = 0] by simp
next
  fix err w1 e
  assume a: "shouldRetry rc = shouldRetry defaultRetryConfig \<and>
        fn w = (Inl err, w1) \<and> enhanceError h w1 err ctx (Some 0) = Inr e \<and>
        status e = JNum 400"
  then have "isRetryable (js_of_enhanced e) = Inr (retryPolicy (code e) 400)"
    by (simp add: default_predicate_policy)
  then have "isRetryable (js_of_enhanced e) \<noteq> Inr True" by (simp add: retryPolicy_def)
  with a have "case shouldRetry rc of None \<Rightarrow> True | Some p \<Rightarrow> \<not> p e"
    by (simp add: defaultRetryConfig_def)
  with a show "retryOperation rc (counted_host h) (counted fn) ctx 0 (w, 0) = (Inl (Enhanced e), (w1, 1))"
    using retry_stops [where fn = fn and w = w and h = h and n = 0 and k = 0] by simp
next
  from retry_bound [of rc h fn ctx 0 w 0]
  show "\<exists>res w' k. retryOperation rc (counted_host h) (counted fn) ctx 0 (w, 0) = (res, (w', k)) \<and>
        1 \<le> k \<and> int k \<le> max 0 (maxRetries rc) + 1"
    by (auto simp: Suc_le_eq)
qed


lemma server_error_classified:
  "\<exists>e. enhanceError clockHost w
          (JObj [(''status'', JNum 500), (''message'', JStr ''Server error'')]) None rc = Inr e \<and>
        status e = JNum 500 \<and> code e = INTERNAL_SERVER_ERROR"
  by (simp add: classify_defs)

lemma bad_request_classified:
  "\<exists>e. enhanceError clockHost w
          (JObj [(''status'', JNum 400), (''message'', JStr ''Bad request'')]) None rc = Inr e \<and>
        status e = JNum 400 \<and> code e = BAD_REQUEST"
  by (simp add: classify_defs)

lemma server_error_accepted_by_default:
  "attemptAccepted defaultRetryConfig clockHost alwaysServerError None w n"
proof -
  let ?w = "attemptWorld defaultRetryConfig clockHost alwaysServerError n w"
  from server_error_classified [of "?w + 1" "Some n"] obtain e where
    e: "enhanceError clockHost (?w + 1)
          (JObj [(''status'', JNum 500), (''message'', JStr ''Server error'')]) None (Some n) = Inr e"
    and s: "status e = JNum 500" and c: "code e = INTERNAL_SERVER_ERROR"
    by blast
  have "isRetryable (js_of_enhanced e) = Inr True"
    using default_predicate_policy [OF s] c by (simp add: retryPolicy_def)
  with e show ?thesis
    by (simp add: attemptAccepted_def alwaysServerError_def defaultRetryConfig_def)
qed

lemma server_error_accepted_by_count:
  assumes "n < 10"
  shows "attemptAccepted fewerThanTen clockHost alwaysServerError None w n"
proof -
  let ?w = "attemptWorld fewerThanTen clockHost alwaysServerError n w"
  from server_error_classified [of "?w + 1" "Some n"] obtain e where
    e: "enhanceError clockHost (?w + 1)
          (JObj [(''status'', JNum 500), (''message'', JStr ''Server error'')]) None (Some n) = Inr e"
    by blast
  from enhanceError_retryCount [OF e] have "retryCount (context e) = Some n" .
  with e assms show ?thesis
    by (simp add: attemptAccepted_def alwaysServerError_def fewerThanTen_def)
qed

theorem retry_attempts_witness:
  "(\<exists>e w'. retryOperation defaultRetryConfig (counted_host clockHost) (counted alwaysServerError)
             None 0 (0, 0) = (Inl (Enhanced e), (w', 4)) \<and>
           retryCount (context e) = Some 3) \<and>
   (\<exists>e w'. retryOperation fewerThanTen (counted_host clockHost) (counted alwaysServerError)
             None 0 (0, 0) = (Inl (Enhanced e), (w', 4)) \<and>
           retryCount (context e) = Some 3) \<and>
   (\<exists>e. retryOperation only503 (counted_host clockHost) (counted alwaysServerError)
           None 0 (0, 0) = (Inl (Enhanced e), (1, 1)) \<and> status e = JNum 500) \<and>
   (\<exists>e. retryOperation defaultRetryConfig (counted_host clockHost) (counted alwaysBadRequest)
           None 0 (0, 0) = (Inl (Enhanced e), (1, 1)) \<and> status e = JNum 400) \<and>
   (\<exists>res w' k. retryOperation defaultRetryConfig (counted_host clockHost) (counted alwaysBadRequest)
           None 0 (0, 0) = (res, (w', k)) \<and> 1 \<le> k \<and> int k \<le> 4)"
proof -
  note S = retry_attempts [of defaultRetryConfig clockHost alwaysServerError None 0]
  note T = retry_attempts [of fewerThanTen clockHost alwaysServerError None 0]
  note C = retry_attempts [of only503 clockHost alwaysServerError None 0]
  note B = retry_attempts [of defaultRetryConfig clockHost alwaysBadRequest None 0]
  have m: "maxRetries defaultRetryConfig = 3" by (simp add: defaultRetryConfig_def)
  have a: "0 \<le> maxRetries defaultRetryConfig \<and>
           (\<forall>n. int n \<le> maxRetries defaultRetryConfig \<longrightarrow>
              attemptAccepted defaultRetryConfig clockHost alwaysServerError None 0 n)"
    by (simp add: m server_error_accepted_by_default)
  from S [THEN conjunct1, rule_format, OF a]
  have w1: "\<exists>e w'. retryOperation defaultRetryConfig (counted_host clockHost) (counted alwaysServerError)
             None 0 (0, 0) = (Inl (Enhanced e), (w', 4)) \<and>
           retryCount (context e) = Some 3"
    by (simp add: m)
  have mt: "maxRetries fewerThanTen = 3" by (simp add: fewerThanTen_def defaultRetryConfig_def)
  have at: "0 \<le> maxRetries fewerThanTen \<and>
           (\<forall>n. int n \<le> maxRetries fewerThanTen \<longrightarrow>
              attemptAccepted fewerThanTen clockHost alwaysServerError None 0 n)"
    by (simp add: mt server_error_accepted_by_count)
  from T [THEN conjunct1, rule_format, OF at]
  have w1t: "\<exists>e w'. retryOperation fewerThanTen (counted_host clockHost) (counted alwaysServerError)
             None 0 (0, 0) = (Inl (Enhanced e), (w', 4)) \<and>
           retryCount (context e) = Some 3"
    by (simp add: mt)
  from server_error_classified [of 1 "Some 0"] obtain e5 where
    e5: "enhanceError clockHost 1
          (JObj [(''status'', JNum 500), (''message'', JStr ''Server error'')]) None (Some 0) = Inr e5"
    and s5: "status e5 = JNum 500"
    by blast
  have c5: "alwaysServerError 0 = (Inl (JObj [(''status'', JNum 500), (''message'', JStr ''Server error'')]), 1) \<and>
        enhanceError clockHost 1 (JObj [(''status'', JNum 500), (''message'', JStr ''Server error'')]) None (Some 0) = Inr e5 \<and>
        (case shouldRetry only503 of None \<Rightarrow> True | Some p \<Rightarrow> \<not> p e5)"
    using e5 s5 by (simp add: alwaysServerError_def only503_def)
  from C [THEN conjunct2, THEN conjunct1, rule_format, OF c5] s5
  have w2: "\<exists>e. retryOperation only503 (counted_host clockHost) (counted alwaysServerError)
           None 0 (0, 0) = (Inl (Enhanced e), (1, 1)) \<and> status e = JNum 500"
    by blast
  from bad_request_classified [of 1 "Some 0"] obtain e4 where
    e4: "enhanceError clockHost 1
          (JObj [(''status'', JNum 400), (''message'', JStr ''Bad request'')]) None (Some 0) = Inr e4"
    and s4: "status e4 = JNum 400"
    by blast
  have c4: "shouldRetry defaultRetryConfig = shouldRetry defaultRetryConfig \<and>
        alwaysBadRequest 0 = (Inl (JObj [(''status'', JNum 400), (''message'', JStr ''Bad request'')]), 1) \<and>
        enhanceError clockHost 1 (JObj [(''status'', JNum 400), (''message'', JStr ''Bad request'')]) None (Some 0) = Inr e4 \<and>
        status e4 = JNum 400"
    using e4 s4 by (simp add: alwaysBadRequest_def)
  from B [THEN conjunct2, THEN conjunct2, THEN conjunct1, rule_format, OF c4] s4
  have w3: "\<exists>e. retryOperation defaultRetryConfig (counted_host clockHost) (counted alwaysBadRequest)
           None 0 (0, 0) = (Inl (Enhanced e), (1, 1)) \<and> status e = JNum 400"
    by blast
  from B [THEN conjunct2, THEN conjunct2, THEN conjunct2]
  have w4: "\<exists>res w' k. retryOperation defaultRetryConfig (counted_host clockHost) (counted alwaysBadRequest)
           None 0 (0, 0) = (res, (w', k)) \<and> 1 \<le> k \<and> int k \<le> 4"
    by (simp add: m)
  from w1 w1t w2 w3 w4 show ?thesis by (intro conjI)
qed

section \<open>Requests with retries disabled\<close>

lemma executeRequest_plain:
  assumes "\<not> enableRetry cl"
  shows "executeRequest cl (counted_host h) (counted request) ctx (w, k) =
     (case request w of
        (Inr response, w') \<Rightarrow> (Inr (data response), cl, (w', Suc k))
      | (Inl error, w') \<Rightarrow>
          (case enhanceError h w' error ctx None of
             Inl t \<Rightarrow> (Inl t, cl, (w', Suc k))
           | Inr e \<Rightarrow> (Inl (Enhanced e), cl, (w', Suc k))))"
  using assms
  by (simp add: executeRequest_def counted_apply enhanceError_counted
      split: prod.splits sum.splits)

text \<open>
  \<^const>\<open>executeRequest\<close> returns the \<^verbatim>\<open>data\<close> of the response the operation resolved
  with, not the response: two operations that resolve with different responses (status 200
  and status 201) carrying the same data give the same value.
\<close>

theorem response_unwrapped_counterexample:
  "fst (okRequest 0) \<noteq> fst (createdRequest 0) \<and>
   fst (executeRequest plainClient (counted_host clockHost) (counted okRequest) None (0, 0)) =
   fst (executeRequest plainClient (counted_host clockHost) (counted createdRequest) None (0, 0)) \<and>
   fst (executeRequest plainClient (counted_host clockHost) (counted okRequest) None (0, 0)) =
   Inr ''success''"
  by (simp add: executeRequest_def plainClient_def counted_def okRequest_def createdRequest_def)

text \<open>
  Claim C9, as amended. With \<^verbatim>\<open>enableRetry\<close> false, \<^const>\<open>executeRequest\<close> attempts the
  operation exactly once (the counter of a counted operation ends at 1) and leaves the
  client, and so its circuit breaker, as it was. When the operation resolves, the
  \<^verbatim>\<open>data\<close> of its response is returned unchanged. When it rejects, what is thrown is the
  result of \<^const>\<open>enhanceError\<close> on the raw failure and the context, without a retry
  count: the enhanced error, or the TypeError the classifier itself throws.
\<close>

theorem no_retry_still_classifies:
  fixes h :: "'w host" and request :: "'w \<Rightarrow> (jsval + 'a HttpResponse) \<times> 'w"
  assumes off: "\<not> enableRetry cl"
  shows
    "(\<forall>response w'. request w = (Inr response, w') \<longrightarrow>
        executeRequest cl (counted_host h) (counted request) ctx (w, 0)
          = (Inr (data response), cl, (w', 1))) \<and>
     (\<forall>error w' e. request w = (Inl error, w') \<and> enhanceError h w' error ctx None = Inr e \<longrightarrow>
        executeRequest cl (counted_host h) (counted request) ctx (w, 0)
          = (Inl (Enhanced e), cl, (w', 1))) \<and>
     (\<forall>error w' t. request w = (Inl error, w') \<and> enhanceError h w' error ctx None = Inl t \<longrightarrow>
        executeRequest cl (counted_host h) (counted request) ctx (w, 0) = (Inl t, cl, (w', 1))) \<and>
     (\<exists>res w'. executeRequest cl (counted_host h) (counted request) ctx (w, 0) = (res, cl, (w', 1)))"
proof -
  note u = executeRequest_plain [OF off, of h request ctx w 0]
  have a: "\<forall>response w'. request w = (Inr response, w') \<longrightarrow>
        executeRequest cl (counted_host h) (counted request) ctx (w, 0)
          = (Inr (data response), cl, (w', 1))"
    by (simp add: u)
  have b: "\<forall>error w' e. request w = (Inl error, w') \<and> enhanceError h w' error ctx None = Inr e \<longrightarrow>
        executeRequest cl (counted_host h) (counted request) ctx (w, 0)
          = (Inl (Enhanced e), cl, (w', 1))"
    by (simp add: u)
  have c: "\<forall>error w' t. request w = (Inl error, w') \<and> enhanceError h w' error ctx None = Inl t \<longrightarrow>
        executeRequest cl (counted_host h) (counted request) ctx (w, 0) = (Inl t, cl, (w', 1))"
    by (simp add: u)
  have d: "\<exists>res w'. executeRequest cl (counted_host h) (counted request) ctx (w, 0) = (res, cl, (w', 1))"
    by (simp add: u split: prod.splits sum.splits)
  from a b c d show ?thesis by (intro conjI)
qed

theorem no_retry_still_classifies_witness:
  "executeRequest plainClient (counted_host clockHost) (counted okRequest) None (0, 0)
     = (Inr ''success'', plainClient, (1, 1)) \<and>
   (\<exists>e. executeRequest plainClient (counted_host clockHost) (counted serverErrorRequest) None (0, 0)
          = (Inl (Enhanced e), plainClient, (1, 1)) \<and>
        status e = JNum 500 \<and> code e = INTERNAL_SERVER_ERROR \<and> retryable e)"
proof -
  have off: "\<not> enableRetry plainClient" by (simp add: plainClient_def)
  note K = no_retry_still_classifies [OF off, of okRequest 0 clockHost None]
  note F = no_retry_still_classifies [OF off, of serverErrorRequest 0 clockHost None]
  have ok: "okRequest 0 =
      (Inr \<lparr> data = ''success'', http_status = 200, statusText = ''OK'', headers = [] \<rparr>, 1)"
    by (simp add: okRequest_def)
  from K [THEN conjunct1, rule_format, OF ok]
  have w1: "executeRequest plainClient (counted_host clockHost) (counted okRequest) None (0, 0)
     = (Inr ''success'', plainClient, (1, 1))"
    by simp
  have "\<exists>e. enhanceError clockHost 1
          (JObj [(''status'', JNum 500), (''message'', JStr ''Server error'')]) None None = Inr e \<and>
        status e = JNum 500 \<and> code e = INTERNAL_SERVER_ERROR \<and> retryable e"
    by (simp add: classify_defs)
  then obtain e where
    e: "enhanceError clockHost 1
          (JObj [(''status'', JNum 500), (''message'', JStr ''Server error'')]) None None = Inr e"
    and p: "status e = JNum 500" "code e = INTERNAL_SERVER_ERROR" "retryable e"
    by blast
  have f: "serverErrorRequest 0 =
             (Inl (JObj [(''status'', JNum 500), (''message'', JStr ''Server error'')]), 1) \<and>
           enhanceError clockHost 1
             (JObj [(''status'', JNum 500), (''message'', JStr ''Server error'')]) None None = Inr e"
    using e by (simp add: serverErrorRequest_def)
  from F [THEN conjunct2, THEN conjunct1, rule_format, OF f] p
  have w2: "\<exists>e. executeRequest plainClient (counted_host clockHost) (counted serverErrorRequest) None (0, 0)
          = (Inl (Enhanced e), plainClient, (1, 1)) \<and>
        status e = JNum 500 \<and> code e = INTERNAL_SERVER_ERROR \<and> retryable e"
    by blast
  from w1 w2 show ?thesis by (intro conjI)
qed

end
